theory Spec2Isabelle
  imports Main
begin

section \<open>JavaScript values, errors and the HTTP collaborator\<close>

text \<open>
  The plugin is TypeScript over untyped API payloads (\<^verbatim>\<open>any\<close>). Payloads that the
  request layer only passes through are modelled as JSON-like values; a \<^verbatim>\<open>Buffer\<close> is a
  list of bytes. Truthiness and property reads follow JavaScript: reading a property of
  \<^verbatim>\<open>null\<close> or \<^verbatim>\<open>undefined\<close> throws a TypeError, reading an absent property yields
  \<^verbatim>\<open>undefined\<close>.
\<close>

datatype jsval =
    JUndefined
  | JNull
  | JBool bool
  | JNum int
  | JStr string
  | JBuf "nat list"
  | JArr "jsval list"
  | JObj "(string \<times> jsval) list"

text \<open>
  What the code can catch. An HTTP error carries \<^verbatim>\<open>error.response?.status\<close> and the text of
  \<^verbatim>\<open>error.response?.data?.error?.message || ''\<close>; \<open>TokenUnavailable\<close> is the Error thrown by
  \<^verbatim>\<open>_request\<close> when no access token can be obtained; \<open>OtherError\<close> is any other error
  object, with its message. A promise may also be rejected with \<^verbatim>\<open>undefined\<close> or \<^verbatim>\<open>null\<close>
  (\<open>Nullish\<close>): a \<^verbatim>\<open>catch\<close> block that reads a property of such a value
  (\<^verbatim>\<open>error.message\<close>, \<^verbatim>\<open>error.response\<close>) throws a TypeError itself.
\<close>

datatype error =
    TypeError
  | TokenUnavailable
  | HttpError "nat option" string
  | OtherError string
  | Nullish

fun truthy :: "jsval \<Rightarrow> bool" where
  "truthy JUndefined = False"
| "truthy JNull = False"
| "truthy (JBool b) = b"
| "truthy (JNum n) = (n \<noteq> 0)"
| "truthy (JStr s) = (s \<noteq> [])"
| "truthy (JBuf b) = True"
| "truthy (JArr xs) = True"
| "truthy (JObj kvs) = True"

definition truthy_str :: "string option \<Rightarrow> bool" where
  "truthy_str v = (case v of None \<Rightarrow> False | Some s \<Rightarrow> s \<noteq> [])"

fun get_prop :: "jsval \<Rightarrow> string \<Rightarrow> error + jsval" where
  "get_prop JUndefined k = Inl TypeError"
| "get_prop JNull k = Inl TypeError"
| "get_prop (JObj kvs) k = Inr (case map_of kvs k of None \<Rightarrow> JUndefined | Some v \<Rightarrow> v)"
| "get_prop v k = Inr JUndefined"

text \<open>
  \<^verbatim>\<open>/invalid_grant|invalid_token/i.test(errorMsg)\<close>: an unanchored, case-insensitive search
  for either word. Both words are ASCII, so folding \<^verbatim>\<open>A-Z\<close> is all the flag does.
\<close>

definition lower_ascii :: "char \<Rightarrow> char" where
  "lower_ascii c =
     (let n = (of_char c :: nat) in if 65 \<le> n \<and> n \<le> 90 then char_of (n + 32) else c)"

fun starts_with :: "string \<Rightarrow> string \<Rightarrow> bool" where
  "starts_with [] s = True"
| "starts_with (p # ps) [] = False"
| "starts_with (p # ps) (c # cs) = (p = c \<and> starts_with ps cs)"

fun contains :: "string \<Rightarrow> string \<Rightarrow> bool" where
  "contains p [] = starts_with p []"
| "contains p (c # cs) = (starts_with p (c # cs) \<or> contains p cs)"

definition invalid_token_signal :: "string \<Rightarrow> bool" where
  "invalid_token_signal errorMsg =
     (let m = map lower_ascii errorMsg
      in contains ''invalid_grant'' m \<or> contains ''invalid_token'' m)"

fun is_auth_failure :: "error \<Rightarrow> bool" where
  "is_auth_failure (HttpError st errorMsg) = (st = Some 400 \<and> invalid_token_signal errorMsg)"
| "is_auth_failure e = False"

text \<open>
  Every call of \<^verbatim>\<open>ctx.http\<close> is logged in the service state, and the collaborator answers
  the \<open>n\<close>-th call of a run through an oracle, so that the same request may fail first and
  succeed when it is sent again. \<open>api\<close> answers the JSON endpoints, \<open>cdn\<close> the binary
  image download (\<^verbatim>\<open>responseType: 'arraybuffer'\<close>).
\<close>

datatype http_call =
    Post string "(string \<times> string) list"
  | Get string "(string \<times> string) list" jsval
  | Download string

record network =
  api :: "nat \<Rightarrow> http_call \<Rightarrow> error + jsval"
  cdn :: "nat \<Rightarrow> string \<Rightarrow> error + nat list"

section \<open>Configuration\<close>

datatype r18_action = Block | Warn | Send

datatype pdf_send_mode = BufferMode | FileMode

record subscription =
  uid :: string
  sub_name :: string
  channelIds :: "string list"

record config =
  refreshToken :: "string option"
  clientId :: string
  clientSecret :: string
  sendTags :: bool
  sendAuthor :: bool
  sendLinkWithCommand :: bool
  r18Action :: r18_action
  forwardThreshold :: nat
  pdfThreshold :: nat
  autoPdfForR18 :: bool
  pdfPassword :: "string option"
  pdfSendMode :: pdf_send_mode
  enableCompression :: bool
  compressionQuality :: nat
  enableSubscription :: bool
  subscriptions :: "subscription list"
  pushBotPlatform :: "string option"
  pushBotId :: "string option"
  debug :: bool

section \<open>PixivService: token refresh and the authorized request\<close>

record service =
  accessToken :: jsval
  calls :: "http_call list"

definition token_form :: "config \<Rightarrow> string \<Rightarrow> (string \<times> string) list" where
  "token_form cfg rt =
     [(''grant_type'', ''refresh_token''), (''client_id'', clientId cfg),
      (''client_secret'', clientSecret cfg), (''refresh_token'', rt),
      (''get_secure_url'', ''true'')]"

definition token_call :: "config \<Rightarrow> string \<Rightarrow> http_call" where
  "token_call cfg rt = Post ''https://oauth.secure.pixiv.net/auth/token'' (token_form cfg rt)"

text \<open>
  \<^verbatim>\<open>_refreshAccessToken\<close>. Without a refresh token it returns false at once. Otherwise it
  posts the form. A thrown error (also the TypeError of reading \<^verbatim>\<open>access_token\<close> off an
  empty response) is caught: the token is cleared, the error is logged through
  \<^verbatim>\<open>error.response?.data || error.message\<close>, which throws when the caught value is
  \<^verbatim>\<open>undefined\<close> or \<^verbatim>\<open>null\<close>, and false is returned. A response with a truthy
  \<^verbatim>\<open>access_token\<close> stores it and returns true; any other response returns false from
  inside the \<^verbatim>\<open>try\<close> block.
\<close>

definition refreshAccessToken ::
  "config \<Rightarrow> network \<Rightarrow> service \<Rightarrow> (error + bool) \<times> service" where
  "refreshAccessToken cfg net s =
     (case refreshToken cfg of
        None \<Rightarrow> (Inr False, s)
      | Some rt \<Rightarrow>
          if rt = [] then (Inr False, s)
          else
            (let s1 = s\<lparr>calls := calls s @ [token_call cfg rt]\<rparr>
             in case api net (length (calls s)) (token_call cfg rt) of
                  Inl e \<Rightarrow>
                    if e = Nullish then (Inl TypeError, s1\<lparr>accessToken := JNull\<rparr>)
                    else (Inr False, s1\<lparr>accessToken := JNull\<rparr>)
                | Inr response \<Rightarrow>
                    (case get_prop response ''access_token'' of
                       Inl e \<Rightarrow> (Inr False, s1\<lparr>accessToken := JNull\<rparr>)
                     | Inr tok \<Rightarrow>
                         if truthy tok then (Inr True, s1\<lparr>accessToken := tok\<rparr>)
                         else (Inr False, s1))))"

text \<open>The closure \<^verbatim>\<open>makeRequest\<close>: one GET carrying the token held at that moment.\<close>

definition makeRequest ::
  "network \<Rightarrow> string \<Rightarrow> (string \<times> string) list \<Rightarrow> service \<Rightarrow> (error + jsval) \<times> service" where
  "makeRequest net url params s =
     (api net (length (calls s)) (Get url params (accessToken s)),
      s\<lparr>calls := calls s @ [Get url params (accessToken s)]\<rparr>)"

text \<open>The first statement of \<^verbatim>\<open>_request\<close>: obtain a token when none is held.\<close>

definition ensureToken :: "config \<Rightarrow> network \<Rightarrow> service \<Rightarrow> (error + bool) \<times> service" where
  "ensureToken cfg net s =
     (if \<not> truthy (accessToken s) then refreshAccessToken cfg net s else (Inr True, s))"

text \<open>
  \<^verbatim>\<open>_request\<close>: after the token check, the request is sent. Its \<^verbatim>\<open>catch\<close> block first
  reads \<^verbatim>\<open>error.response\<close>, which throws for a caught \<^verbatim>\<open>undefined\<close> or \<^verbatim>\<open>null\<close>. An
  authorization failure triggers one refresh and, when that returns true, one resend
  whose outcome (value or error) is returned as it is; an error thrown by the refresh
  propagates; every other path rethrows the first error.
\<close>

definition request ::
  "config \<Rightarrow> network \<Rightarrow> string \<Rightarrow> (string \<times> string) list \<Rightarrow> service
     \<Rightarrow> (error + jsval) \<times> service" where
  "request cfg net url params s =
     (case ensureToken cfg net s of
        (Inl t, s1) \<Rightarrow> (Inl t, s1)
      | (Inr False, s1) \<Rightarrow> (Inl TokenUnavailable, s1)
      | (Inr True, s1) \<Rightarrow>
          (case makeRequest net url params s1 of
             (Inr v, s2) \<Rightarrow> (Inr v, s2)
           | (Inl e, s2) \<Rightarrow>
               if e = Nullish then (Inl TypeError, s2)
               else if is_auth_failure e then
                 (case refreshAccessToken cfg net s2 of
                    (Inl t, s3) \<Rightarrow> (Inl t, s3)
                  | (Inr True, s3) \<Rightarrow> makeRequest net url params s3
                  | (Inr False, s3) \<Rightarrow> (Inl e, s3))
               else (Inl e, s2)))"

text \<open>
  A token is only ever stored by a refresh that found a refresh token in the
  configuration; the service starts with \<^verbatim>\<open>accessToken = null\<close>.
\<close>

definition token_inv :: "config \<Rightarrow> service \<Rightarrow> bool" where
  "token_inv cfg s = (if truthy (accessToken s) then truthy_str (refreshToken cfg) else True)"

definition initial_service :: service where
  "initial_service = \<lparr>accessToken = JNull, calls = []\<rparr>"

section \<open>Gallery Client accessors\<close>






definition downloadImage ::
  "network \<Rightarrow> string \<Rightarrow> service \<Rightarrow> (error + jsval) \<times> service" where
  "downloadImage net url s =
     (case cdn net (length (calls s)) url of
        Inl e \<Rightarrow>
          ((if e = Nullish then Inl TypeError else Inr JNull),
           s\<lparr>calls := calls s @ [Download url]\<rparr>)
      | Inr arrayBuffer \<Rightarrow> (Inr (JBuf arrayBuffer), s\<lparr>calls := calls s @ [Download url]\<rparr>))"



section \<open>Output Renderer\<close>

text \<open>
  From here on the artwork is read through the fields the renderer uses. The app API
  delivers \<^verbatim>\<open>id\<close> as a JSON number (the tracker calls \<^verbatim>\<open>id.toString()\<close> on it);
  \<open>meta_pages\<close> holds \<^verbatim>\<open>image_urls.original\<close> of every page and \<open>single_page_url\<close> is
  \<^verbatim>\<open>meta_single_page.original_image_url\<close>.
\<close>

record illust =
  illust_id :: nat
  title :: string
  user_name :: string
  tags :: "string list"
  x_restrict :: nat
  meta_pages :: "string list"
  single_page_url :: string

text \<open>
  The image library (sharp) is a collaborator outside the repository and is taken as a
  parameter: \<open>toFile q b\<close> is the file written by \<^verbatim>\<open>sharp(b).toFile(path)\<close> (\<open>q = None\<close>) or by
  \<^verbatim>\<open>sharp(b).jpeg({quality}).toFile(path)\<close> (\<open>q = Some quality\<close>), and \<open>metadata f\<close> the
  width and height that \<^verbatim>\<open>sharp(f).metadata()\<close> reports. Either may throw.
\<close>

record image_lib =
  toFile :: "nat option \<Rightarrow> nat list \<Rightarrow> error + nat list"
  metadata :: "nat list \<Rightarrow> error + nat \<times> nat"

record page =
  page_width :: nat
  page_height :: nat
  page_image :: "nat list"

record pdf =
  pages :: "page list"
  userPassword :: "string option"

datatype origin = Command | Middleware

record chat =
  platform :: string
  messageId :: string

text \<open>
  The lines of \<^verbatim>\<open>textInfo\<close>, in the order the code concatenates them; the fixed labels
  of each line are the constructor.
\<close>

datatype line =
    UpdateHeader string
  | TitleLine string
  | AuthorLine string
  | TagsLine "string list"
  | R18Line
  | SourceLink string

datatype notice =
    NotFound
  | Blocked
  | R18Warning string string
  | AllDownloadsFailed
  | UnknownError error

text \<open>
  Message elements. A PDF is sent either as the bytes read back from the temporary file
  (\<open>FileBuffer\<close>) or as a \<^verbatim>\<open>file://\<close> reference to it (\<open>FilePath\<close>); both carry the document
  that \<^verbatim>\<open>createPdfFile\<close> wrote there, and the title of the attachment.
\<close>

datatype element =
    P "line list"
  | Image "nat list"
  | FileBuffer pdf string
  | FilePath pdf string
  | Figure "element list"

text \<open>
  What \<^verbatim>\<open>handlePixivRequest\<close> resolves to: \<^verbatim>\<open>null\<close>, a quoted notice (a string), an array
  of elements, or one element.
\<close>

datatype reply =
    Nothing
  | Quoted "string option" notice
  | Elements "element list"
  | Element element

text \<open>
  The collaborators of the renderer and of the tracker, as they answer in one run.
  The accessors of the Gallery Client appear with the value they return, \<open>None\<close> for
  \<^verbatim>\<open>null\<close>; an accessor call that throws instead of returning (which takes a rejection
  with \<^verbatim>\<open>undefined\<close> or \<^verbatim>\<open>null\<close>, see \<open>caught_with_debug_log\<close> and \<open>downloadImage\<close>) is not
  among the answers of this record. \<open>sendMessage_result\<close> is \<open>None\<close> when
  \<^verbatim>\<open>bot.sendMessage\<close> resolves and the value it is rejected with otherwise;
  \<open>database_get_ok\<close> and \<open>database_write_ok\<close> say whether reading an author's row and
  writing an id for an author succeed (they throw otherwise).
\<close>

record bot =
  bot_platform :: string
  selfId :: string
  bot_status :: nat

datatype outgoing = Joined "element list" | Direct reply

record env =
  pixiv_getArtworkDetail :: "string \<Rightarrow> illust option"
  pixiv_getUserIllusts :: "string \<Rightarrow> illust list option"
  pixiv_downloadImage :: "string \<Rightarrow> nat list option"
  sharp :: image_lib
  bots :: "bot list"
  sendMessage_result :: "bot \<Rightarrow> string \<Rightarrow> outgoing \<Rightarrow> error option"
  database_get_ok :: "string \<Rightarrow> bool"
  database_write_ok :: "string \<Rightarrow> string \<Rightarrow> bool"

text \<open>
  \<^verbatim>\<open>(illust.title || illust.id).replace(/[\\/:\*\?"<>\|]/g, '_')\<close>. With an empty title the
  operand is the numeric id, which has no \<^verbatim>\<open>replace\<close> method: a TypeError.
\<close>

definition unsafe_char :: "char \<Rightarrow> bool" where
  "unsafe_char c = ((of_char c :: nat) \<in> set [92, 47, 58, 42, 63, 34, 60, 62, 124])"

definition safeTitle :: "illust \<Rightarrow> error + string" where
  "safeTitle il =
     (if title il \<noteq> [] then Inr (map (\<lambda>c. if unsafe_char c then CHR ''_'' else c) (title il))
      else Inl TypeError)"

definition jpegOption :: "config \<Rightarrow> nat option" where
  "jpegOption cfg = (if enableCompression cfg then Some (compressionQuality cfg) else None)"

text \<open>The loop of \<^verbatim>\<open>createPdfFile\<close>: one page per buffer, in order; the first error stops it.\<close>

fun createPages :: "image_lib \<Rightarrow> nat option \<Rightarrow> nat list list \<Rightarrow> error + page list" where
  "createPages lib q [] = Inr []"
| "createPages lib q (buffer # rest) =
     (case toFile lib q buffer of
        Inl e \<Rightarrow> Inl e
      | Inr tempImage \<Rightarrow>
          (case metadata lib tempImage of
             Inl e \<Rightarrow> Inl e
           | Inr (w, h) \<Rightarrow>
               (case createPages lib q rest of
                  Inl e \<Rightarrow> Inl e
                | Inr ps \<Rightarrow>
                    Inr (\<lparr>page_width = w, page_height = h, page_image = tempImage\<rparr> # ps))))"

definition createPdfFile :: "config \<Rightarrow> image_lib \<Rightarrow> illust \<Rightarrow> nat list list \<Rightarrow> error + pdf" where
  "createPdfFile cfg lib il buffers =
     (case safeTitle il of
        Inl e \<Rightarrow> Inl e
      | Inr t \<Rightarrow>
          (case createPages lib (jpegOption cfg) buffers of
             Inl e \<Rightarrow> Inl e
           | Inr ps \<Rightarrow>
               Inr \<lparr>pages = ps,
                    userPassword = (if truthy_str (pdfPassword cfg) then pdfPassword cfg else None)\<rparr>))"

definition imageUrls :: "illust \<Rightarrow> string list" where
  "imageUrls il = (if meta_pages il \<noteq> [] then meta_pages il else [single_page_url il])"

text \<open>\<^verbatim>\<open>(await Promise.all(imageUrls.map(downloadImage))).filter(Boolean)\<close>\<close>

definition imageBuffers :: "env \<Rightarrow> illust \<Rightarrow> nat list list" where
  "imageBuffers en il = List.map_filter (pixiv_downloadImage en) (imageUrls il)"

definition textInfo :: "config \<Rightarrow> illust \<Rightarrow> string \<Rightarrow> origin \<Rightarrow> bool \<Rightarrow> line list" where
  "textInfo cfg il pid src isSubscription =
     (if isSubscription then [UpdateHeader (user_name il)] else [])
     @ [TitleLine (title il)]
     @ (if sendAuthor cfg then [AuthorLine (user_name il)] else [])
     @ (if sendTags cfg \<and> tags il \<noteq> [] then [TagsLine (tags il)] else [])
     @ (if 0 < x_restrict il then [R18Line] else [])
     @ (if src = Command \<and> sendLinkWithCommand cfg then [SourceLink pid] else [])"

definition shouldCreatePdf :: "config \<Rightarrow> illust \<Rightarrow> nat \<Rightarrow> bool" where
  "shouldCreatePdf cfg il imageCount =
     ((autoPdfForR18 cfg \<and> 0 < x_restrict il)
      \<or> (0 < pdfThreshold cfg \<and> pdfThreshold cfg \<le> imageCount))"

definition soft :: "bool \<Rightarrow> chat option \<Rightarrow> notice \<Rightarrow> reply" where
  "soft isSubscription session n =
     (if isSubscription then Nothing else Quoted (map_option messageId session) n)"

definition forward_capable :: "string option \<Rightarrow> bool" where
  "forward_capable p = (p = Some ''qq'' \<or> p = Some ''onebot'')"

text \<open>The body of the \<^verbatim>\<open>try\<close> block of \<^verbatim>\<open>handlePixivRequest\<close>.\<close>

definition render ::
  "config \<Rightarrow> env \<Rightarrow> chat option \<Rightarrow> string \<Rightarrow> origin \<Rightarrow> bool \<Rightarrow> error + reply" where
  "render cfg en session pid src isSubscription =
     (case pixiv_getArtworkDetail en pid of
        None \<Rightarrow> Inr (soft isSubscription session NotFound)
      | Some il \<Rightarrow>
          if 0 < x_restrict il \<and> r18Action cfg = Block
          then Inr (soft isSubscription session Blocked)
          else if 0 < x_restrict il \<and> r18Action cfg = Warn \<and> \<not> isSubscription
          then Inr (Quoted (map_option messageId session) (R18Warning (title il) (user_name il)))
          else if imageBuffers en il = []
          then Inr (soft isSubscription session AllDownloadsFailed)
          else
            (case safeTitle il of
               Inl e \<Rightarrow> Inl e
             | Inr t \<Rightarrow>
                 if shouldCreatePdf cfg il (length (imageBuffers en il)) then
                   (case createPdfFile cfg (sharp en) il (imageBuffers en il) of
                      Inl e \<Rightarrow> Inl e
                    | Inr doc \<Rightarrow>
                        Inr (Elements
                          [P (textInfo cfg il pid src isSubscription),
                           (if pdfSendMode cfg = FileMode then FilePath doc (t @ ''.pdf'')
                            else FileBuffer doc (t @ ''.pdf''))]))
                 else if 0 < forwardThreshold cfg
                       \<and> forwardThreshold cfg \<le> length (imageBuffers en il)
                       \<and> forward_capable
                           (if isSubscription then pushBotPlatform cfg
                            else map_option platform session)
                 then Inr (Element (Figure
                        (P (textInfo cfg il pid src isSubscription)
                         # map Image (imageBuffers en il))))
                 else Inr (Elements
                        (P (textInfo cfg il pid src isSubscription)
                         # map Image (imageBuffers en il)))))"

text \<open>
  \<^verbatim>\<open>handlePixivRequest\<close>. The status notice of an interactive request reads
  \<^verbatim>\<open>session.messageId\<close> before the \<^verbatim>\<open>try\<close> block, which throws when there is no session;
  everything after it is caught and becomes \<^verbatim>\<open>null\<close> (subscription) or a quoted error
  notice built from \<^verbatim>\<open>error.message\<close>, a read that throws when the caught value is
  \<^verbatim>\<open>undefined\<close> or \<^verbatim>\<open>null\<close>. Sending and deleting the status notice itself is not part
  of the model.
\<close>

definition handlePixivRequest ::
  "config \<Rightarrow> env \<Rightarrow> chat option \<Rightarrow> string \<Rightarrow> origin \<Rightarrow> bool \<Rightarrow> error + reply" where
  "handlePixivRequest cfg en session pid src isSubscription =
     (if \<not> isSubscription \<and> session = None then Inl TypeError
      else
        (case render cfg en session pid src isSubscription of
           Inl e \<Rightarrow>
             if isSubscription then Inr Nothing
             else if e = Nullish then Inl TypeError
             else Inr (Quoted (map_option messageId session) (UnknownError e))
         | Inr r \<Rightarrow> Inr r))"

section \<open>Subscription Tracker\<close>

text \<open>\<^verbatim>\<open>id.toString()\<close> of a non-negative integer: its decimal digits.\<close>

fun toString :: "nat \<Rightarrow> string" where
  "toString n =
     (if n < 10 then [char_of (48 + n)]
      else toString (n div 10) @ [char_of (48 + n mod 10)])"

declare toString.simps [simp del]

text \<open>
  The table \<^verbatim>\<open>pixiv_last_artworks\<close> has \<^verbatim>\<open>author_id\<close> as its primary key: a map from
  author id to \<^verbatim>\<open>last_artwork_id\<close>. The log records, in order, every
  \<^verbatim>\<open>bot.sendMessage\<close> call (with the author it was made for, the channel, the message and
  whether the call resolved) and every write of the table that succeeded.
\<close>

type_synonym table = "string \<rightharpoonup> string"

datatype event =
    Sent string string outgoing bool
  | Upsert string string
  | Create string string

fun event_author :: "event \<Rightarrow> string" where
  "event_author (Sent u ch m ok) = u"
| "event_author (Upsert u v) = u"
| "event_author (Create u v) = u"

fun is_write :: "event \<Rightarrow> bool" where
  "is_write (Sent u ch m ok) = False"
| "is_write (Upsert u v) = True"
| "is_write (Create u v) = True"

definition writes_of :: "string \<Rightarrow> event list \<Rightarrow> event list" where
  "writes_of u evs = filter (\<lambda>e. is_write e \<and> event_author e = u) evs"

definition sends_of :: "string \<Rightarrow> event list \<Rightarrow> event list" where
  "sends_of u evs = filter (\<lambda>e. \<not> is_write e \<and> event_author e = u) evs"

text \<open>\<^verbatim>\<open>Array.isArray(messageContent) ? messageContent.join('\n') : messageContent\<close>\<close>

definition message_of :: "reply \<Rightarrow> outgoing" where
  "message_of r = (case r of Elements es \<Rightarrow> Joined es | _ \<Rightarrow> Direct r)"

text \<open>
  The inner loop over the channels: the events of the loop and, if the loop was left by
  an error, that error. A rejected send is caught and logged with \<^verbatim>\<open>e.message\<close>; the loop
  then goes on to the next channel, unless the caught value is \<^verbatim>\<open>undefined\<close> or
  \<^verbatim>\<open>null\<close>, for which the read throws a TypeError out of the loop.
\<close>

fun deliver :: "env \<Rightarrow> bot \<Rightarrow> string \<Rightarrow> reply \<Rightarrow> string list \<Rightarrow> event list \<times> error option" where
  "deliver en b u content [] = ([], None)"
| "deliver en b u content (channelId # rest) =
     (case sendMessage_result en b channelId (message_of content) of
        None \<Rightarrow>
          (case deliver en b u content rest of
             (evs, thrown) \<Rightarrow> (Sent u channelId (message_of content) True # evs, thrown))
      | Some e \<Rightarrow>
          if e = Nullish then ([Sent u channelId (message_of content) False], Some TypeError)
          else
            (case deliver en b u content rest of
               (evs, thrown) \<Rightarrow> (Sent u channelId (message_of content) False # evs, thrown)))"

definition isNew :: "string \<Rightarrow> string option \<Rightarrow> bool" where
  "isNew latestId lastIdInDb = (\<not> truthy_str lastIdInDb \<or> Some latestId \<noteq> lastIdInDb)"

definition shouldPush :: "bool \<Rightarrow> string \<Rightarrow> string option \<Rightarrow> bool" where
  "shouldPush isManualTrigger latestId lastIdInDb =
     (isNew latestId lastIdInDb \<or> (isManualTrigger \<and> latestId \<noteq> []))"

text \<open>
  The statement \<^verbatim>\<open>if (isNew) await ctx.database.upsert(...)\<close> at the end of the loop
  body. An upsert that throws writes nothing and is caught by the \<^verbatim>\<open>catch\<close> of the loop
  body, after which the iteration is over as well.
\<close>

definition persist_if_new :: "env \<Rightarrow> string \<Rightarrow> string \<Rightarrow> table \<Rightarrow> table \<times> event list" where
  "persist_if_new en u latestId tbl =
     (if isNew latestId (tbl u) \<and> database_write_ok en u latestId
      then (tbl(u \<mapsto> latestId), [Upsert u latestId])
      else (tbl, []))"

text \<open>
  One iteration of the loop over \<^verbatim>\<open>config.subscriptions\<close>: the new table, the events of
  the iteration, and by how much \<^verbatim>\<open>updatesFound\<close> grew. A listing that is unavailable or
  empty, and content that could not be generated, both end the iteration with
  \<^verbatim>\<open>continue\<close>. The body is one \<^verbatim>\<open>try\<close> block whose \<^verbatim>\<open>catch\<close> only logs: a read of the
  table that throws, an error thrown out of the channel loop, and an error thrown by the
  request handler each end the iteration where they occur, with nothing written.
\<close>

definition check_sub ::
  "config \<Rightarrow> env \<Rightarrow> bot \<Rightarrow> bool \<Rightarrow> subscription \<Rightarrow> table \<Rightarrow> table \<times> event list \<times> nat" where
  "check_sub cfg en b isManualTrigger sub tbl =
     (if uid sub = [] \<or> channelIds sub = [] then (tbl, [], 0)
      else
        (case pixiv_getUserIllusts en (uid sub) of
           None \<Rightarrow> (tbl, [], 0)
         | Some [] \<Rightarrow> (tbl, [], 0)
         | Some (latestIllust # older) \<Rightarrow>
             (let latestId = toString (illust_id latestIllust) in
              if \<not> database_get_ok en (uid sub) then (tbl, [], 0)
              else if shouldPush isManualTrigger latestId (tbl (uid sub)) then
                (case handlePixivRequest cfg en None latestId Middleware True of
                   Inl e \<Rightarrow> (tbl, [], 1)
                 | Inr Nothing \<Rightarrow> (tbl, [], 1)
                 | Inr messageContent \<Rightarrow>
                     (case deliver en b (uid sub) messageContent (channelIds sub) of
                        (sent, Some thrown) \<Rightarrow> (tbl, sent, 1)
                      | (sent, None) \<Rightarrow>
                          (let (tbl1, written) = persist_if_new en (uid sub) latestId tbl
                           in (tbl1, sent @ written, 1))))
              else
                (let (tbl1, written) = persist_if_new en (uid sub) latestId tbl
                 in (tbl1, written, 0)))))"

fun check_subs ::
  "config \<Rightarrow> env \<Rightarrow> bot \<Rightarrow> bool \<Rightarrow> subscription list \<Rightarrow> table \<Rightarrow> table \<times> event list \<times> nat" where
  "check_subs cfg en b isManualTrigger [] tbl = (tbl, [], 0)"
| "check_subs cfg en b isManualTrigger (sub # rest) tbl =
     (case check_sub cfg en b isManualTrigger sub tbl of
        (tbl1, evs1, n1) \<Rightarrow>
          (case check_subs cfg en b isManualTrigger rest tbl1 of
             (tbl2, evs2, n2) \<Rightarrow> (tbl2, evs1 @ evs2, n1 + n2)))"

datatype summary = NoSummary | BotOffline | PushedFor nat

definition push_bot :: "config \<Rightarrow> env \<Rightarrow> bot option" where
  "push_bot cfg en =
     find (\<lambda>b. Some (bot_platform b) = pushBotPlatform cfg \<and> Some (selfId b) = pushBotId cfg
                \<and> bot_status b = 1) (bots en)"

text \<open>
  \<^verbatim>\<open>checkAndPushUpdates\<close>: nothing when the feature is off, nothing but a notice when the
  configured bot is not online, otherwise the loop; the result is the returned summary,
  the table after the run and the events of the run.
\<close>

definition checkAndPushUpdates ::
  "config \<Rightarrow> env \<Rightarrow> bool \<Rightarrow> table \<Rightarrow> summary \<times> table \<times> event list" where
  "checkAndPushUpdates cfg en isManualTrigger tbl =
     (if \<not> enableSubscription cfg then (NoSummary, tbl, [])
      else
        (case push_bot cfg en of
           None \<Rightarrow> ((if isManualTrigger then BotOffline else NoSummary), tbl, [])
         | Some b \<Rightarrow>
             (case check_subs cfg en b isManualTrigger (subscriptions cfg) tbl of
                (tbl1, evs, updatesFound) \<Rightarrow>
                  ((if isManualTrigger then PushedFor updatesFound else NoSummary), tbl1, evs))))"




section \<open>Statements about runs\<close>

text \<open>
  The definitions of this section are not part of the plugin; they name what the
  statements below talk about. \<open>latest_id\<close> is the id that the tracker and the ready
  handler read off the head of an author's listing, if there is one.
\<close>

definition latest_id :: "env \<Rightarrow> string \<Rightarrow> string option" where
  "latest_id en u =
     (case pixiv_getUserIllusts en u of
        Some (latestIllust # older) \<Rightarrow> Some (toString (illust_id latestIllust))
      | _ \<Rightarrow> None)"

text \<open>
  Replaying a log on a table, and the condition that every write of a log stores the
  head of its author's listing and either changes the value stored at that moment
  (\<open>Upsert\<close>) or fills a row that is absent at that moment (\<open>Create\<close>).
\<close>

fun apply_event :: "table \<Rightarrow> event \<Rightarrow> table" where
  "apply_event tbl (Sent u ch m ok) = tbl"
| "apply_event tbl (Upsert u v) = tbl(u \<mapsto> v)"
| "apply_event tbl (Create u v) = tbl(u \<mapsto> v)"


definition apply_events :: "table \<Rightarrow> event list \<Rightarrow> table" where
  "apply_events tbl evs = foldl apply_event tbl evs"


text \<open>
  The deliveries of one piece of content for author \<open>u\<close>: one \<^verbatim>\<open>sendMessage\<close> call for
  every channel of every subscription entry of \<open>u\<close> that has channels, in the order of
  the configuration.
\<close>

definition attempts :: "env \<Rightarrow> bot \<Rightarrow> string \<Rightarrow> reply \<Rightarrow> string list \<Rightarrow> event list" where
  "attempts en b u content chs =
     map (\<lambda>channelId.
            Sent u channelId (message_of content)
              (sendMessage_result en b channelId (message_of content) = None)) chs"

definition pushes :: "config \<Rightarrow> env \<Rightarrow> bot \<Rightarrow> string \<Rightarrow> reply \<Rightarrow> event list" where
  "pushes cfg en b u content =
     concat (map (\<lambda>s. attempts en b u content (channelIds s))
                 (filter (\<lambda>s. uid s = u \<and> channelIds s \<noteq> []) (subscriptions cfg)))"

section \<open>Example inputs\<close>

text \<open>
  The default configuration with one subscription (\<open>ex_cfg_pdf\<close> and \<open>ex_cfg_forward\<close>
  lower the thresholds); a toy image library whose files start with their width and
  height and whose JPEG option halves the remaining bytes; an author \<^verbatim>\<open>7\<close> whose only
  artwork \<^verbatim>\<open>100\<close> has one image; a bot for which the delivery to channel \<^verbatim>\<open>c2\<close> is
  rejected with an error object. \<open>ex_env_no_content\<close> is the same world with the artwork
  detail unavailable, \<open>ex_env_nullish\<close> the one in which every delivery is rejected with
  \<^verbatim>\<open>undefined\<close>, and \<open>ex_env_untitled\<close> the one in which the artwork has an empty
  title.
\<close>

definition ex_sub :: subscription where
  "ex_sub = \<lparr>uid = ''7'', sub_name = ''author'', channelIds = [''c1'', ''c2'']\<rparr>"

definition ex_cfg :: config where
  "ex_cfg =
     \<lparr>refreshToken = Some ''rt'', clientId = ''id'', clientSecret = ''secret'',
      sendTags = True, sendAuthor = True, sendLinkWithCommand = False, r18Action = Warn,
      forwardThreshold = 3, pdfThreshold = 10, autoPdfForR18 = True, pdfPassword = None,
      pdfSendMode = BufferMode, enableCompression = True, compressionQuality = 80,
      enableSubscription = True, subscriptions = [ex_sub],
      pushBotPlatform = Some ''onebot'', pushBotId = Some ''42'', debug = False\<rparr>"

definition ex_cfg_pdf :: config where
  "ex_cfg_pdf = ex_cfg\<lparr>forwardThreshold := 1, pdfThreshold := 1\<rparr>"

definition ex_cfg_forward :: config where
  "ex_cfg_forward = ex_cfg\<lparr>forwardThreshold := 1\<rparr>"

definition ex_bot :: bot where
  "ex_bot = \<lparr>bot_platform = ''onebot'', selfId = ''42'', bot_status = 1\<rparr>"

definition ex_lib :: image_lib where
  "ex_lib =
     \<lparr>toFile = (\<lambda>q b. case b of
                  w # h # d \<Rightarrow> Inr (w # h # (case q of None \<Rightarrow> d | Some k \<Rightarrow> map (\<lambda>x. x div 2) d))
                | _ \<Rightarrow> Inl TypeError),
      metadata = (\<lambda>b. case b of w # h # d \<Rightarrow> Inr (w, h) | _ \<Rightarrow> Inl TypeError)\<rparr>"

definition ex_illust :: illust where
  "ex_illust =
     \<lparr>illust_id = 100, title = ''t'', user_name = ''a'', tags = [''x''], x_restrict = 0,
      meta_pages = [], single_page_url = ''u1''\<rparr>"

definition ex_env :: env where
  "ex_env =
     \<lparr>pixiv_getArtworkDetail = (\<lambda>p. if p = ''100'' then Some ex_illust else None),
      pixiv_getUserIllusts = (\<lambda>u. if u = ''7'' then Some [ex_illust] else None),
      pixiv_downloadImage = (\<lambda>url. if url = ''u1'' then Some [2, 3, 8, 6] else None),
      sharp = ex_lib,
      bots = [ex_bot],
      sendMessage_result =
        (\<lambda>b ch m. if ch = ''c1'' then None else Some (OtherError ''channel not found'')),
      database_get_ok = (\<lambda>u. True),
      database_write_ok = (\<lambda>u v. True)\<rparr>"

definition ex_env_no_content :: env where
  "ex_env_no_content = ex_env\<lparr>pixiv_getArtworkDetail := (\<lambda>p. None)\<rparr>"

definition ex_env_nullish :: env where
  "ex_env_nullish = ex_env\<lparr>sendMessage_result := (\<lambda>b ch m. Some Nullish)\<rparr>"

definition ex_untitled :: illust where
  "ex_untitled = ex_illust\<lparr>title := []\<rparr>"

definition ex_env_untitled :: env where
  "ex_env_untitled =
     ex_env\<lparr>pixiv_getArtworkDetail := (\<lambda>p. if p = ''100'' then Some ex_untitled else None)\<rparr>"

definition ex_chat :: chat where
  "ex_chat = \<lparr>platform = ''onebot'', messageId = ''m1''\<rparr>"

definition ex_content :: reply where
  "ex_content =
     Elements [P [UpdateHeader ''a'', TitleLine ''t'', AuthorLine ''a'', TagsLine [''x'']],
               Image [2, 3, 8, 6]]"

definition ex_seen :: table where
  "ex_seen = [''7'' \<mapsto> ''100'']"


text \<open>
  \<open>ex_net\<close> grants a token, rejects the first request as an authorization failure,
  grants a second token and fails the resend with status 500. \<open>ex_net_empty\<close> answers every
  call with an empty JSON object, \<open>ex_net_html\<close> with an HTML page as text, and
  \<open>ex_net_down\<close> fails every call with an error object, \<open>ex_net_nullish\<close> rejects every
  call with \<^verbatim>\<open>undefined\<close>. \<open>ex_held\<close> is a service that holds a token.
\<close>

definition ex_net :: network where
  "ex_net =
     \<lparr>api = (\<lambda>n c.
               if n = 0 then Inr (JObj [(''access_token'', JStr ''t1'')])
               else if n = 1 then Inl (HttpError (Some 400) ''Invalid_Grant'')
               else if n = 2 then Inr (JObj [(''access_token'', JStr ''t2'')])
               else Inl (HttpError (Some 500) ''down'')),
      cdn = (\<lambda>n url. Inl (HttpError None []))\<rparr>"

definition ex_net_empty :: network where
  "ex_net_empty = \<lparr>api = (\<lambda>n c. Inr (JObj [])), cdn = (\<lambda>n url. Inr [])\<rparr>"



definition ex_net_nullish :: network where
  "ex_net_nullish = \<lparr>api = (\<lambda>n c. Inl Nullish), cdn = (\<lambda>n url. Inl Nullish)\<rparr>"

definition ex_held :: service where
  "ex_held = \<lparr>accessToken = JStr ''stale'', calls = []\<rparr>"

section \<open>Lemmas about the model\<close>

subsection \<open>The token\<close>

lemma refresh_configured:
  assumes "refreshAccessToken cfg net s = (Inr True, s1)"
  shows "truthy_str (refreshToken cfg) \<and> truthy (accessToken s1)"
  using assms
  by (auto simp: refreshAccessToken_def truthy_str_def Let_def
           split: option.splits if_splits sum.splits)

lemma refresh_calls:
  assumes "refreshToken cfg = Some rt" "rt \<noteq> []"
  shows "calls (snd (refreshAccessToken cfg net s)) = calls s @ [token_call cfg rt]"
  using assms
  by (auto simp: refreshAccessToken_def Let_def split: sum.splits)

lemma ensure_configured:
  assumes "token_inv cfg s" "ensureToken cfg net s = (Inr True, s1)"
  shows "truthy_str (refreshToken cfg) \<and> truthy (accessToken s1)"
  using assms refresh_configured[of cfg net s s1]
  by (auto simp: ensureToken_def token_inv_def split: if_splits)

lemma token_inv_initial: "token_inv cfg initial_service"
  by (simp add: token_inv_def initial_service_def)

lemma refresh_keeps_inv: "token_inv cfg s \<Longrightarrow> token_inv cfg (snd (refreshAccessToken cfg net s))"
  by (auto simp: token_inv_def refreshAccessToken_def truthy_str_def Let_def
           split: option.splits sum.splits)

lemma makeRequest_keeps_inv: "token_inv cfg s \<Longrightarrow> token_inv cfg (snd (makeRequest net url ps s))"
  by (simp add: token_inv_def makeRequest_def)

lemma request_keeps_inv: "token_inv cfg s \<Longrightarrow> token_inv cfg (snd (request cfg net url ps s))"
proof -
  assume i: "token_inv cfg s"
  have e: "token_inv cfg (snd (ensureToken cfg net s))"
    using i refresh_keeps_inv[OF i, of net] by (simp add: ensureToken_def)
  obtain ok s1 where s1: "ensureToken cfg net s = (ok, s1)"
    by (cases "ensureToken cfg net s") auto
  with e have i1: "token_inv cfg s1" by simp
  obtain r s2 where s2: "makeRequest net url ps s1 = (r, s2)"
    by (cases "makeRequest net url ps s1") auto
  with makeRequest_keeps_inv[OF i1, of net url ps] have i2: "token_inv cfg s2" by simp
  obtain ok3 s3 where s3: "refreshAccessToken cfg net s2 = (ok3, s3)"
    by (cases "refreshAccessToken cfg net s2") auto
  with refresh_keeps_inv[OF i2, of net] have i3: "token_inv cfg s3" by simp
  from makeRequest_keeps_inv[OF i3, of net url ps] i1 i2 i3 s1 s2 s3
  show ?thesis
    by (auto simp: request_def split: sum.splits bool.splits)
qed

lemma refresh_stores_new_token:
  assumes "refreshAccessToken cfg net s = (Inr True, s1)"
  shows "\<exists>rt response tok. refreshToken cfg = Some rt
           \<and> api net (length (calls s)) (token_call cfg rt) = Inr response
           \<and> get_prop response ''access_token'' = Inr tok \<and> truthy tok
           \<and> s1 = s\<lparr>calls := calls s @ [token_call cfg rt], accessToken := tok\<rparr>"
  using assms
  by (auto simp: refreshAccessToken_def Let_def split: option.splits if_splits sum.splits)

lemma refresh_clears_on_throw:
  assumes "refreshToken cfg = Some rt" "rt \<noteq> []"
    and "api net (length (calls s)) (token_call cfg rt) = Inl e"
  shows "refreshAccessToken cfg net s
           = ((if e = Nullish then Inl TypeError else Inr False),
              s\<lparr>calls := calls s @ [token_call cfg rt], accessToken := JNull\<rparr>)"
  using assms by (simp add: refreshAccessToken_def)


subsection \<open>One iteration and one run of the tracker\<close>

lemma toString_nonempty: "toString n \<noteq> []"
  by (subst toString.simps) simp

lemma latest_id_nonempty: "latest_id en u = Some l \<Longrightarrow> l \<noteq> []"
  by (auto simp: latest_id_def toString_nonempty split: option.splits list.splits)

lemma isNew_same: "l \<noteq> [] \<Longrightarrow> \<not> isNew l (Some l)"
  by (simp add: isNew_def truthy_str_def)

lemma persist_cases:
  "persist_if_new en u l tbl = (tbl', evs) \<Longrightarrow>
     (tbl' = tbl \<and> evs = []) \<or>
     (isNew l (tbl u) \<and> database_write_ok en u l \<and> tbl' = tbl(u \<mapsto> l)
        \<and> evs = [Upsert u l])"
  by (auto simp: persist_if_new_def split: if_splits)

lemma deliver_events:
  "\<forall>e\<in>set (fst (deliver en b u c chs)). \<not> is_write e \<and> event_author e = u"
  by (induction chs) (auto split: option.splits prod.splits)

lemma deliver_no_write: "filter is_write (fst (deliver en b u c chs)) = []"
  using deliver_events[of en b u c chs] by (simp add: filter_empty_conv)

lemma deliver_author: "e \<in> set (fst (deliver en b u c chs)) \<Longrightarrow> event_author e = u"
  using deliver_events[of en b u c chs] by simp

lemma deliver_completes:
  assumes "\<forall>ch. sendMessage_result en b ch (message_of c) \<noteq> Some Nullish"
  shows "deliver en b u c chs = (attempts en b u c chs, None)"
  using assms by (induction chs) (auto simp: attempts_def split: option.splits)

lemma attempts_events:
  "\<forall>e\<in>set (attempts en b u c chs). \<not> is_write e \<and> event_author e = u"
  by (auto simp: attempts_def)

lemma deliver_pair:
  "deliver en b u c chs = (sent, r) \<Longrightarrow>
     filter is_write sent = [] \<and> (\<forall>e\<in>set sent. event_author e = u)"
  using deliver_events[of en b u c chs] by (auto simp: filter_empty_conv)

lemma check_sub_cases:
  assumes "check_sub cfg en b m sub tbl = (tbl', evs, n)"
  shows "(\<forall>e\<in>set evs. event_author e = uid sub) \<and>
         ((filter is_write evs = [] \<and> tbl' = tbl) \<or>
          (\<exists>l. latest_id en (uid sub) = Some l \<and> isNew l (tbl (uid sub)) \<and>
               tbl' = tbl(uid sub \<mapsto> l) \<and> filter is_write evs = [Upsert (uid sub) l]))"
  using assms
  by (auto simp: check_sub_def Let_def latest_id_def
           dest!: persist_cases deliver_pair
           split: if_splits option.splits list.splits sum.splits reply.splits prod.splits)

lemma writes_of_append: "writes_of u (xs @ ys) = writes_of u xs @ writes_of u ys"
  by (simp add: writes_of_def)

lemma writes_of_other:
  "\<forall>e\<in>set evs. event_author e = v \<Longrightarrow> v \<noteq> u \<Longrightarrow> writes_of u evs = []"
  by (auto simp: writes_of_def filter_empty_conv)

lemma writes_of_own:
  "\<forall>e\<in>set evs. event_author e = u \<Longrightarrow> writes_of u evs = filter is_write evs"
  by (auto simp: writes_of_def intro: filter_cong)

lemma check_sub_recorded:
  assumes l: "latest_id en u = Some l" and rec: "tbl u = Some l"
    and step: "check_sub cfg en b m sub tbl = (tbl', evs, n)"
  shows "writes_of u evs = [] \<and> tbl' u = Some l"
proof (cases "uid sub = u")
  case True
  from check_sub_cases[OF step] l rec True isNew_same[OF latest_id_nonempty[OF l]]
  show ?thesis by (auto simp: writes_of_own)
next
  case False
  from check_sub_cases[OF step] False rec writes_of_other[of evs "uid sub" u]
  show ?thesis by auto
qed

lemma check_subs_recorded:
  "latest_id en u = Some l \<Longrightarrow> tbl u = Some l \<Longrightarrow>
   check_subs cfg en b m subs tbl = (tbl', evs, n) \<Longrightarrow>
   writes_of u evs = [] \<and> tbl' u = Some l"
proof (induction subs arbitrary: tbl tbl' evs n)
  case Nil
  then show ?case by (simp add: writes_of_def)
next
  case (Cons sub rest)
  obtain t1 e1 n1 where s1: "check_sub cfg en b m sub tbl = (t1, e1, n1)"
    by (cases "check_sub cfg en b m sub tbl") auto
  obtain t2 e2 n2 where s2: "check_subs cfg en b m rest t1 = (t2, e2, n2)"
    by (cases "check_subs cfg en b m rest t1") auto
  from Cons.prems(3) s1 s2 have eq: "tbl' = t2" "evs = e1 @ e2" by auto
  from check_sub_recorded[OF Cons.prems(1,2) s1]
  have a: "writes_of u e1 = []" "t1 u = Some l" by auto
  from Cons.IH[OF Cons.prems(1) a(2) s2] a(1) eq
  show ?case by (simp add: writes_of_append)
qed

lemma check_subs_writes:
  "check_subs cfg en b m subs tbl = (tbl', evs, n) \<Longrightarrow>
   writes_of u evs = [] \<or>
   (\<exists>l. latest_id en u = Some l \<and> writes_of u evs = [Upsert u l] \<and> tbl' u = Some l)"
proof (induction subs arbitrary: tbl tbl' evs n)
  case Nil
  then show ?case by (simp add: writes_of_def)
next
  case (Cons sub rest)
  obtain t1 e1 n1 where s1: "check_sub cfg en b m sub tbl = (t1, e1, n1)"
    by (cases "check_sub cfg en b m sub tbl") auto
  obtain t2 e2 n2 where s2: "check_subs cfg en b m rest t1 = (t2, e2, n2)"
    by (cases "check_subs cfg en b m rest t1") auto
  from Cons.prems s1 s2 have eq: "tbl' = t2" "evs = e1 @ e2" by auto
  note c = check_sub_cases[OF s1]
  show ?case
  proof (cases "writes_of u e1 = []")
    case True
    with Cons.IH[OF s2] eq show ?thesis by (simp add: writes_of_append)
  next
    case False
    with c writes_of_other[of e1 "uid sub" u] have own: "uid sub = u" by blast
    with c False obtain l where l: "latest_id en u = Some l" "t1 = tbl(u \<mapsto> l)"
        "writes_of u e1 = [Upsert u l]"
      by (auto simp: writes_of_own)
    from l(2) have "t1 u = Some l" by simp
    from check_subs_recorded[OF l(1) this s2] l eq
    show ?thesis by (simp add: writes_of_append)
  qed
qed

lemma sends_of_append: "sends_of u (xs @ ys) = sends_of u xs @ sends_of u ys"
  by (simp add: sends_of_def)

lemma sends_of_other:
  "\<forall>e\<in>set evs. event_author e = v \<Longrightarrow> v \<noteq> u \<Longrightarrow> sends_of u evs = []"
  by (auto simp: sends_of_def filter_empty_conv)

lemma check_sub_unchanged:
  assumes l: "latest_id en u = Some l" and rec: "tbl u = Some l"
    and step: "check_sub cfg en b False sub tbl = (tbl', evs, n)"
  shows "sends_of u evs = [] \<and> writes_of u evs = [] \<and> tbl' u = Some l"
proof (cases "uid sub = u")
  case True
  have "\<not> shouldPush False l (Some l)"
    using isNew_same[OF latest_id_nonempty[OF l]] by (simp add: shouldPush_def)
  with step True l rec isNew_same[OF latest_id_nonempty[OF l]]
  have "evs = [] \<and> tbl' = tbl"
    by (auto simp: check_sub_def latest_id_def persist_if_new_def Let_def
             split: if_splits option.splits list.splits)
  with rec show ?thesis by (simp add: sends_of_def writes_of_def)
next
  case False
  from check_sub_cases[OF step] False rec
    writes_of_other[of evs "uid sub" u] sends_of_other[of evs "uid sub" u]
  show ?thesis by auto
qed

lemma check_subs_unchanged:
  "latest_id en u = Some l \<Longrightarrow> tbl u = Some l \<Longrightarrow>
   check_subs cfg en b False subs tbl = (tbl', evs, n) \<Longrightarrow>
   sends_of u evs = [] \<and> writes_of u evs = [] \<and> tbl' u = Some l"
proof (induction subs arbitrary: tbl tbl' evs n)
  case Nil
  then show ?case by (simp add: writes_of_def sends_of_def)
next
  case (Cons sub rest)
  obtain t1 e1 n1 where s1: "check_sub cfg en b False sub tbl = (t1, e1, n1)"
    by (cases "check_sub cfg en b False sub tbl") auto
  obtain t2 e2 n2 where s2: "check_subs cfg en b False rest t1 = (t2, e2, n2)"
    by (cases "check_subs cfg en b False rest t1") auto
  from Cons.prems(3) s1 s2 have eq: "tbl' = t2" "evs = e1 @ e2" by auto
  from check_sub_unchanged[OF Cons.prems(1,2) s1]
  have a: "sends_of u e1 = []" "writes_of u e1 = []" "t1 u = Some l" by auto
  from Cons.IH[OF Cons.prems(1) a(3) s2] a eq
  show ?case by (simp add: writes_of_append sends_of_append)
qed

lemma check_sub_new:
  assumes "uid sub = u" "u \<noteq> []" "channelIds sub \<noteq> []"
    and "pixiv_getUserIllusts en u = Some (latestIllust # older)"
    and "database_get_ok en u"
    and "tbl u \<noteq> Some (toString (illust_id latestIllust))"
    and "handlePixivRequest cfg en None (toString (illust_id latestIllust)) Middleware True
           = Inr content" "content \<noteq> Nothing"
    and "\<forall>ch. sendMessage_result en b ch (message_of content) \<noteq> Some Nullish"
    and "database_write_ok en u (toString (illust_id latestIllust))"
  shows "check_sub cfg en b m sub tbl =
           (tbl(u \<mapsto> toString (illust_id latestIllust)),
            attempts en b u content (channelIds sub)
              @ [Upsert u (toString (illust_id latestIllust))], 1)"
proof -
  have n: "isNew (toString (illust_id latestIllust)) (tbl u)"
    using assms(6) by (auto simp: isNew_def)
  then have "shouldPush m (toString (illust_id latestIllust)) (tbl u)"
    by (simp add: shouldPush_def)
  with assms n deliver_completes[OF assms(9), of u "channelIds sub"] show ?thesis
    by (cases content) (simp_all add: check_sub_def persist_if_new_def Let_def)
qed

lemma check_sub_skipped:
  assumes "uid sub \<noteq> u \<or> channelIds sub = []"
    and "check_sub cfg en b m sub tbl = (tbl', evs, n)"
  shows "writes_of u evs = [] \<and> sends_of u evs = [] \<and> tbl' u = tbl u"
proof (cases "uid sub = u")
  case True
  with assms show ?thesis by (auto simp: check_sub_def writes_of_def sends_of_def)
next
  case False
  from check_sub_cases[OF assms(2)] False
    writes_of_other[of evs "uid sub" u] sends_of_other[of evs "uid sub" u]
  show ?thesis by auto
qed

lemma check_subs_new:
  assumes u: "u \<noteq> []"
    and latest: "pixiv_getUserIllusts en u = Some (latestIllust # older)"
    and db: "database_get_ok en u" "database_write_ok en u (toString (illust_id latestIllust))"
    and content: "handlePixivRequest cfg en None (toString (illust_id latestIllust))
                    Middleware True = Inr content" "content \<noteq> Nothing"
    and sends: "\<forall>ch. sendMessage_result en b ch (message_of content) \<noteq> Some Nullish"
  shows "sub \<in> set subs \<Longrightarrow> uid sub = u \<Longrightarrow> channelIds sub \<noteq> [] \<Longrightarrow>
     tbl u \<noteq> Some (toString (illust_id latestIllust)) \<Longrightarrow>
     check_subs cfg en b m subs tbl = (tbl', evs, n) \<Longrightarrow>
     writes_of u evs = [Upsert u (toString (illust_id latestIllust))]
       \<and> tbl' u = Some (toString (illust_id latestIllust))"
proof (induction subs arbitrary: tbl tbl' evs n)
  case Nil
  then show ?case by simp
next
  case (Cons s rest)
  let ?l = "toString (illust_id latestIllust)"
  have l: "latest_id en u = Some ?l" using latest by (simp add: latest_id_def)
  obtain t1 e1 n1 where s1: "check_sub cfg en b m s tbl = (t1, e1, n1)"
    by (cases "check_sub cfg en b m s tbl") auto
  obtain t2 e2 n2 where s2: "check_subs cfg en b m rest t1 = (t2, e2, n2)"
    by (cases "check_subs cfg en b m rest t1") auto
  from Cons.prems(5) s1 s2 have eq: "tbl' = t2" "evs = e1 @ e2" by auto
  show ?case
  proof (cases "uid s = u \<and> channelIds s \<noteq> []")
    case True
    from True have v: "uid s = u" "channelIds s \<noteq> []" by auto
    from check_sub_new[where sub = s and u = u and tbl = tbl and b = b and m = m,
        OF v(1) u v(2) latest db(1) Cons.prems(4) content sends db(2)] s1
    have a: "t1 = tbl(u \<mapsto> ?l)" "e1 = attempts en b u content (channelIds s) @ [Upsert u ?l]"
      by auto
    have w: "writes_of u e1 = [Upsert u ?l]"
      using a(2) by (simp add: writes_of_def attempts_def filter_empty_conv)
    from a(1) have "t1 u = Some ?l" by simp
    from check_subs_recorded[OF l this s2] w eq
    show ?thesis by (simp add: writes_of_append)
  next
    case False
    then have sk: "uid s \<noteq> u \<or> channelIds s = []" by auto
    from check_sub_skipped[OF sk s1]
    have a: "writes_of u e1 = []" "t1 u = tbl u" by auto
    from False Cons.prems(1,2,3) have "sub \<in> set rest" by auto
    from Cons.IH[OF this Cons.prems(2,3) _ s2] a Cons.prems(4) eq
    show ?thesis by (simp add: writes_of_append)
  qed
qed

lemma sends_of_attempts: "sends_of u (attempts en b u c chs) = attempts en b u c chs"
  by (induction chs) (auto simp: sends_of_def attempts_def)

lemma check_sub_manual_push:
  assumes "uid sub = u" "u \<noteq> []" "channelIds sub \<noteq> []"
    and "pixiv_getUserIllusts en u = Some (latestIllust # older)"
    and "database_get_ok en u"
    and "handlePixivRequest cfg en None (toString (illust_id latestIllust)) Middleware True
           = Inr content" "content \<noteq> Nothing"
    and "\<forall>ch. sendMessage_result en b ch (message_of content) \<noteq> Some Nullish"
    and "check_sub cfg en b True sub tbl = (tbl', evs, n)"
  shows "sends_of u evs = attempts en b u content (channelIds sub)"
proof -
  have "shouldPush True (toString (illust_id latestIllust)) (tbl u)"
    by (simp add: shouldPush_def toString_nonempty)
  with assms deliver_completes[OF assms(8), of u "channelIds sub"]
  have "\<exists>w. evs = attempts en b u content (channelIds sub) @ w \<and> sends_of u w = []"
    by (cases content)
       (auto simp: check_sub_def persist_if_new_def Let_def sends_of_def split: if_splits)
  then show ?thesis by (auto simp: sends_of_append sends_of_attempts)
qed

lemma check_subs_manual_push:
  assumes u: "u \<noteq> []"
    and latest: "pixiv_getUserIllusts en u = Some (latestIllust # older)"
    and db: "database_get_ok en u"
    and content: "handlePixivRequest cfg en None (toString (illust_id latestIllust))
                    Middleware True = Inr content" "content \<noteq> Nothing"
    and sends: "\<forall>ch. sendMessage_result en b ch (message_of content) \<noteq> Some Nullish"
  shows "check_subs cfg en b True subs tbl = (tbl', evs, n) \<Longrightarrow>
     sends_of u evs =
       concat (map (\<lambda>s. attempts en b u content (channelIds s))
                   (filter (\<lambda>s. uid s = u \<and> channelIds s \<noteq> []) subs))"
proof (induction subs arbitrary: tbl tbl' evs n)
  case Nil
  then show ?case by (simp add: sends_of_def)
next
  case (Cons s rest)
  obtain t1 e1 n1 where s1: "check_sub cfg en b True s tbl = (t1, e1, n1)"
    by (cases "check_sub cfg en b True s tbl") auto
  obtain t2 e2 n2 where s2: "check_subs cfg en b True rest t1 = (t2, e2, n2)"
    by (cases "check_subs cfg en b True rest t1") auto
  from Cons.prems s1 s2 have eq: "evs = e1 @ e2" by auto
  show ?case
  proof (cases "uid s = u \<and> channelIds s \<noteq> []")
    case True
    then have v: "uid s = u" "channelIds s \<noteq> []" by auto
    from check_sub_manual_push[where sub = s and u = u and tbl = tbl and b = b,
        OF v(1) u v(2) latest db content sends s1]
    have "sends_of u e1 = attempts en b u content (channelIds s)" .
    with Cons.IH[OF s2] eq True show ?thesis by (simp add: sends_of_append)
  next
    case False
    then have sk: "uid s \<noteq> u \<or> channelIds s = []" by auto
    from check_sub_skipped[OF sk s1] have "sends_of u e1 = []" by simp
    with Cons.IH[OF s2] eq False show ?thesis by (auto simp: sends_of_append)
  qed
qed

subsection \<open>Replaying the log\<close>

lemma apply_events_simps [simp]:
  "apply_events tbl [] = tbl"
  "apply_events tbl (e # es) = apply_events (apply_event tbl e) es"
  by (simp_all add: apply_events_def)











subsection \<open>The PDF loop\<close>

lemma createPages_ok:
  assumes "\<forall>b\<in>set bufs. \<exists>f d. toFile lib q b = Inr f \<and> metadata lib f = Inr d
                               \<and> metadata lib b = Inr d"
  shows "\<exists>ps. createPages lib q bufs = Inr ps \<and>
           list_all2 (\<lambda>b p. metadata lib b = Inr (page_width p, page_height p)
                           \<and> toFile lib q b = Inr (page_image p)) bufs ps"
  using assms
proof (induction bufs)
  case Nil
  then show ?case by simp
next
  case (Cons b rest)
  from Cons.prems obtain f w h where
    f: "toFile lib q b = Inr f" "metadata lib f = Inr (w, h)" "metadata lib b = Inr (w, h)"
    by fastforce
  from Cons obtain ps where
    ps: "createPages lib q rest = Inr ps"
        "list_all2 (\<lambda>b p. metadata lib b = Inr (page_width p, page_height p)
                           \<and> toFile lib q b = Inr (page_image p)) rest ps"
    by auto
  from f ps show ?case by simp
qed

text \<open>
  The PDF of an artwork with a title. The request reached the download step (a session
  exists unless this is a subscription push, the artwork detail is available and the R-18
  policy lets the artwork through) and \<open>bufs\<close> are the successfully downloaded images, at
  least as many as the positive PDF threshold. The image library writes a file for every
  image and reports for it the dimensions it reports for the source image. Then the reply
  is the text followed by one PDF attachment, whose document has exactly one page per
  image; page \<open>i\<close> has the pixel dimensions of image \<open>i\<close> and embeds the file written for
  image \<open>i\<close>.
\<close>

lemma titled_artwork_pdf_has_one_page_per_image:
  assumes sess: "isSubscription \<or> session \<noteq> None"
    and detail: "pixiv_getArtworkDetail en pid = Some il"
    and gate: "\<not> (0 < x_restrict il \<and>
                  (r18Action cfg = Block \<or> (r18Action cfg = Warn \<and> \<not> isSubscription)))"
    and named: "title il \<noteq> []"
    and bufs: "imageBuffers en il = bufs"
    and thr: "0 < pdfThreshold cfg" "pdfThreshold cfg \<le> length bufs"
    and lib: "\<forall>b\<in>set bufs. \<exists>f d. toFile (sharp en) (jpegOption cfg) b = Inr f
                \<and> metadata (sharp en) f = Inr d \<and> metadata (sharp en) b = Inr d"
  shows "\<exists>doc t.
           handlePixivRequest cfg en session pid src isSubscription =
             Inr (Elements [P (textInfo cfg il pid src isSubscription),
                            (if pdfSendMode cfg = FileMode then FilePath doc t
                             else FileBuffer doc t)])
           \<and> length (pages doc) = length bufs
           \<and> (\<forall>i<length bufs.
                 metadata (sharp en) (bufs ! i)
                   = Inr (page_width (pages doc ! i), page_height (pages doc ! i))
                 \<and> toFile (sharp en) (jpegOption cfg) (bufs ! i)
                   = Inr (page_image (pages doc ! i)))"
proof -
  from createPages_ok[OF lib] obtain ps where
    ps: "createPages (sharp en) (jpegOption cfg) bufs = Inr ps"
        "list_all2 (\<lambda>b p. metadata (sharp en) b = Inr (page_width p, page_height p)
                           \<and> toFile (sharp en) (jpegOption cfg) b = Inr (page_image p)) bufs ps"
    by blast
  obtain t where t: "safeTitle il = Inr t"
    using named by (simp add: safeTitle_def)
  let ?doc = "\<lparr>pages = ps,
               userPassword = (if truthy_str (pdfPassword cfg) then pdfPassword cfg else None)\<rparr>"
  have pdf: "createPdfFile cfg (sharp en) il bufs = Inr ?doc"
    using t ps(1) by (simp add: createPdfFile_def)
  have ne: "bufs \<noteq> []" using thr by auto
  have sp: "shouldCreatePdf cfg il (length bufs)"
    using thr by (simp add: shouldCreatePdf_def)
  have r: "render cfg en session pid src isSubscription =
             Inr (Elements [P (textInfo cfg il pid src isSubscription),
                            (if pdfSendMode cfg = FileMode then FilePath ?doc (t @ ''.pdf'')
                             else FileBuffer ?doc (t @ ''.pdf''))])"
    using detail gate bufs ne t sp pdf by (auto simp: render_def)
  have h: "handlePixivRequest cfg en session pid src isSubscription =
             Inr (Elements [P (textInfo cfg il pid src isSubscription),
                            (if pdfSendMode cfg = FileMode then FilePath ?doc (t @ ''.pdf'')
                             else FileBuffer ?doc (t @ ''.pdf''))])"
    using sess r by (auto simp: handlePixivRequest_def)
  have len: "length (pages ?doc) = length bufs"
    using ps(2) by (simp add: list_all2_lengthD)
  have idx: "\<forall>i<length bufs.
                 metadata (sharp en) (bufs ! i)
                   = Inr (page_width (pages ?doc ! i), page_height (pages ?doc ! i))
                 \<and> toFile (sharp en) (jpegOption cfg) (bufs ! i)
                   = Inr (page_image (pages ?doc ! i))"
    using ps(2) by (simp add: list_all2_conv_all_nth)
  from h len idx show ?thesis by blast
qed

lemma render_ignores_deliveries:
  "render cfg (en\<lparr>sendMessage_result := f\<rparr>) session pid src isSubscription
     = render cfg en session pid src isSubscription"
  by (simp add: render_def imageBuffers_def
           cong: option.case_cong sum.case_cong if_cong)

subsection \<open>The example inputs\<close>

lemma toString_100: "toString 100 = ''100''"
  by code_simp


lemma ex_push_bot: "push_bot ex_cfg ex_env = Some ex_bot"
  by (simp add: push_bot_def ex_cfg_def ex_env_def ex_bot_def)

lemma ex_buffers: "imageBuffers ex_env ex_illust = [[2, 3, 8, 6]]"
  by (simp add: imageBuffers_def imageUrls_def ex_env_def ex_illust_def)

lemma ex_text:
  "textInfo ex_cfg ex_illust p Middleware True =
     [UpdateHeader ''a'', TitleLine ''t'', AuthorLine ''a'', TagsLine [''x'']]"
  by (simp add: textInfo_def ex_cfg_def ex_illust_def)

lemma ex_render:
  "handlePixivRequest ex_cfg ex_env None ''100'' Middleware True =
     Inr (Elements [P [UpdateHeader ''a'', TitleLine ''t'', AuthorLine ''a'', TagsLine [''x'']],
                    Image [2, 3, 8, 6]])"
proof -
  have d: "pixiv_getArtworkDetail ex_env ''100'' = Some ex_illust"
    by (simp add: ex_env_def)
  have t: "safeTitle ex_illust = Inr ''t''"
    by (simp add: safeTitle_def ex_illust_def unsafe_char_def)
  have s: "\<not> shouldCreatePdf ex_cfg ex_illust (Suc 0)"
    by (simp add: shouldCreatePdf_def ex_cfg_def ex_illust_def)
  have x: "x_restrict ex_illust = 0" "forwardThreshold ex_cfg = 3"
    by (simp_all add: ex_illust_def ex_cfg_def)
  show ?thesis
    by (simp add: handlePixivRequest_def render_def d t s x ex_buffers ex_text)
qed

lemma ex_content_eq:
  "handlePixivRequest ex_cfg ex_env None (toString (illust_id ex_illust)) Middleware True
     = Inr ex_content"
  using ex_render toString_100 by (simp add: ex_content_def ex_illust_def)

lemma ex_listing: "pixiv_getUserIllusts ex_env ''7'' = Some (ex_illust # [])"
  by (simp add: ex_env_def)

lemma ex_sub_facts:
  "enableSubscription ex_cfg" "ex_sub \<in> set (subscriptions ex_cfg)" "uid ex_sub = ''7''"
  "''7'' \<noteq> []" "channelIds ex_sub \<noteq> []"
  by (simp_all add: ex_cfg_def ex_sub_def)

lemma ex_db: "database_get_ok ex_env u" "database_write_ok ex_env u v"
  by (simp_all add: ex_env_def)

lemma ex_sends: "\<forall>ch. sendMessage_result ex_env b ch m \<noteq> Some Nullish"
  by (simp add: ex_env_def)

lemma ex_deliveries:
  "attempts ex_env ex_bot ''7'' ex_content (channelIds ex_sub) =
     [Sent ''7'' ''c1'' (message_of ex_content) True,
      Sent ''7'' ''c2'' (message_of ex_content) False]"
  by (simp add: attempts_def ex_sub_def ex_env_def)



lemma ex_seen_100: "ex_seen ''7'' = Some (toString (illust_id ex_illust))"
  by (simp add: ex_seen_def ex_illust_def toString_100)



lemma ex_auth_failure: "is_auth_failure (HttpError (Some 400) ''Invalid_Grant'')"
  by code_simp

lemma ex_first_exchange:
  "ensureToken ex_cfg ex_net initial_service
     = (Inr True, \<lparr>accessToken = JStr ''t1'', calls = [token_call ex_cfg ''rt'']\<rparr>)"
  by (simp add: ensureToken_def refreshAccessToken_def initial_service_def ex_cfg_def ex_net_def)

lemma ex_first_attempt:
  "makeRequest ex_net ''url'' [] \<lparr>accessToken = JStr ''t1'', calls = [token_call ex_cfg ''rt'']\<rparr>
     = (Inl (HttpError (Some 400) ''Invalid_Grant''),
        \<lparr>accessToken = JStr ''t1'',
         calls = [token_call ex_cfg ''rt'', Get ''url'' [] (JStr ''t1'')]\<rparr>)"
  by (simp add: makeRequest_def ex_net_def)

lemma ex_second_exchange:
  "refreshAccessToken ex_cfg ex_net
     \<lparr>accessToken = JStr ''t1'', calls = [token_call ex_cfg ''rt'', Get ''url'' [] (JStr ''t1'')]\<rparr>
     = (Inr True, \<lparr>accessToken = JStr ''t2'',
                   calls = [token_call ex_cfg ''rt'', Get ''url'' [] (JStr ''t1''),
                            token_call ex_cfg ''rt'']\<rparr>)"
  by (simp add: refreshAccessToken_def ex_cfg_def ex_net_def)

lemma ex_detail: "pixiv_getArtworkDetail ex_env ''100'' = Some ex_illust"
  by (simp add: ex_env_def)

lemma ex_gate:
  "\<not> (0 < x_restrict ex_illust \<and> (r18Action cfg = Block \<or> (r18Action cfg = Warn \<and> \<not> isSub)))"
  by (simp add: ex_illust_def)

lemma ex_named: "title ex_illust \<noteq> []"
  by (simp add: ex_illust_def)

lemma ex_lib_facts:
  "toFile ex_lib (Some 80) [2, 3, 8, 6] = Inr [2, 3, 4, 3]"
  "metadata ex_lib [2, 3, 4, 3] = Inr (2, 3)"
  "metadata ex_lib [2, 3, 8, 6] = Inr (2, 3)"
  by (simp_all add: ex_lib_def)

lemma ex_sharp: "sharp ex_env = ex_lib"
  by (simp add: ex_env_def)

lemma ex_jpeg: "jpegOption ex_cfg_pdf = Some 80"
  by (simp add: jpegOption_def ex_cfg_pdf_def ex_cfg_def)

lemma ex_capable:
  "forward_capable (if False then pushBotPlatform cfg else map_option platform (Some ex_chat))"
  by (simp add: forward_capable_def ex_chat_def)

section \<open>Subscription Tracker: the claims\<close>

text \<open>
  A delivery rejected with \<^verbatim>\<open>undefined\<close> makes the \<^verbatim>\<open>catch\<close> block of the channel loop
  throw, which ends the iteration before the write: in \<open>ex_env_nullish\<close> the cycle makes
  one delivery attempt, to the first channel only, and writes nothing.
\<close>

lemma nullish_rejection_skips_the_write:
  "checkAndPushUpdates ex_cfg ex_env_nullish False Map.empty
     = (NoSummary, Map.empty, [Sent ''7'' ''c1'' (message_of ex_content) False])"
proof -
  have b: "push_bot ex_cfg ex_env_nullish = Some ex_bot"
    by (simp add: push_bot_def ex_cfg_def ex_env_def ex_env_nullish_def ex_bot_def)
  have l: "pixiv_getUserIllusts ex_env_nullish ''7'' = Some [ex_illust]"
    by (simp add: ex_env_def ex_env_nullish_def)
  have g: "database_get_ok ex_env_nullish ''7''"
    by (simp add: ex_env_def ex_env_nullish_def)
  have "handlePixivRequest ex_cfg ex_env_nullish None (toString (illust_id ex_illust))
          Middleware True
        = handlePixivRequest ex_cfg ex_env None (toString (illust_id ex_illust)) Middleware True"
    by (simp add: handlePixivRequest_def render_ignores_deliveries ex_env_nullish_def)
  with ex_content_eq have h:
    "handlePixivRequest ex_cfg ex_env_nullish None (toString (illust_id ex_illust))
       Middleware True = Inr ex_content"
    by simp
  have n: "shouldPush False (toString (illust_id ex_illust)) None"
    by (simp add: shouldPush_def isNew_def truthy_str_def)
  have d: "deliver ex_env_nullish ex_bot ''7'' ex_content [''c1'', ''c2'']
             = ([Sent ''7'' ''c1'' (message_of ex_content) False], Some TypeError)"
    by (simp add: ex_env_nullish_def)
  have c: "ex_content \<noteq> Nothing" by (simp add: ex_content_def)
  have s: "check_sub ex_cfg ex_env_nullish ex_bot False ex_sub Map.empty
             = (Map.empty, [Sent ''7'' ''c1'' (message_of ex_content) False], 1)"
    using l g h n d c by (simp add: check_sub_def ex_sub_def ex_content_def)
  show ?thesis
    using b s by (simp add: checkAndPushUpdates_def ex_cfg_def)
qed

text \<open>
  Claim C1, as amended. In a subscription cycle, manual or not, in which the configured
  bot is online: for an author \<open>u\<close> that has a subscription entry with a non-empty uid and
  at least one channel, whose listing is not empty, whose row can be read, whose latest
  artwork id differs from the persisted one (or no row exists), for whose latest artwork
  the request handler returns content, and whose write succeeds, the log of the cycle
  holds exactly one write for \<open>u\<close>, the upsert of the latest id, and the table holds that
  id afterwards. Every delivery may resolve or be rejected with an error object
  (\<open>sendMessage_result\<close> is otherwise arbitrary); a rejection with \<^verbatim>\<open>undefined\<close> or
  \<^verbatim>\<open>null\<close> is excluded, see \<open>nullish_rejection_skips_the_write\<close>.
\<close>

theorem new_artwork_is_written_once:
  assumes on: "enableSubscription cfg" and online: "push_bot cfg en = Some b"
    and sub: "sub \<in> set (subscriptions cfg)" "uid sub = u" "u \<noteq> []" "channelIds sub \<noteq> []"
    and latest: "pixiv_getUserIllusts en u = Some (latestIllust # older)"
    and db: "database_get_ok en u" "database_write_ok en u (toString (illust_id latestIllust))"
    and new: "tbl u \<noteq> Some (toString (illust_id latestIllust))"
    and content: "handlePixivRequest cfg en None (toString (illust_id latestIllust))
                    Middleware True = Inr content" "content \<noteq> Nothing"
    and sends: "\<forall>ch. sendMessage_result en b ch (message_of content) \<noteq> Some Nullish"
    and run: "checkAndPushUpdates cfg en isManualTrigger tbl = (r, tbl', evs)"
  shows "writes_of u evs = [Upsert u (toString (illust_id latestIllust))]
           \<and> tbl' u = Some (toString (illust_id latestIllust))"
proof -
  obtain t1 e1 n1 where
    s: "check_subs cfg en b isManualTrigger (subscriptions cfg) tbl = (t1, e1, n1)"
    by (cases "check_subs cfg en b isManualTrigger (subscriptions cfg) tbl") auto
  with run on online have "tbl' = t1" "evs = e1"
    by (auto simp: checkAndPushUpdates_def)
  with check_subs_new[OF sub(3) latest db content sends sub(1,2,4) new s]
  show ?thesis by simp
qed

text \<open>
  The hypotheses of C1 hold in the example world, where the delivery to the second
  channel is rejected with an error object.
\<close>

theorem new_artwork_is_written_once_witness:
  "enableSubscription ex_cfg \<and> push_bot ex_cfg ex_env = Some ex_bot
   \<and> ex_sub \<in> set (subscriptions ex_cfg) \<and> uid ex_sub = ''7'' \<and> channelIds ex_sub \<noteq> []
   \<and> pixiv_getUserIllusts ex_env ''7'' = Some [ex_illust]
   \<and> database_get_ok ex_env ''7''
   \<and> database_write_ok ex_env ''7'' (toString (illust_id ex_illust))
   \<and> Map.empty ''7'' \<noteq> Some (toString (illust_id ex_illust))
   \<and> handlePixivRequest ex_cfg ex_env None (toString (illust_id ex_illust)) Middleware True
       = Inr ex_content
   \<and> ex_content \<noteq> Nothing
   \<and> sendMessage_result ex_env ex_bot ''c1'' (message_of ex_content) = None
   \<and> sendMessage_result ex_env ex_bot ''c2'' (message_of ex_content)
       = Some (OtherError ''channel not found'')
   \<and> writes_of ''7'' (snd (snd (checkAndPushUpdates ex_cfg ex_env False Map.empty)))
       = [Upsert ''7'' (toString (illust_id ex_illust))]
   \<and> fst (snd (checkAndPushUpdates ex_cfg ex_env False Map.empty)) ''7''
       = Some (toString (illust_id ex_illust))"
proof -
  have new: "Map.empty ''7'' \<noteq> Some (toString (illust_id ex_illust))" by simp
  have c: "ex_content \<noteq> Nothing" by (simp add: ex_content_def)
  have run: "checkAndPushUpdates ex_cfg ex_env False Map.empty =
          (fst (checkAndPushUpdates ex_cfg ex_env False Map.empty),
           fst (snd (checkAndPushUpdates ex_cfg ex_env False Map.empty)),
           snd (snd (checkAndPushUpdates ex_cfg ex_env False Map.empty)))"
    by simp
  have r: "sendMessage_result ex_env ex_bot ''c1'' (message_of ex_content) = None"
    "sendMessage_result ex_env ex_bot ''c2'' (message_of ex_content)
       = Some (OtherError ''channel not found'')"
    by (simp_all add: ex_env_def)
  from new_artwork_is_written_once[OF ex_sub_facts(1) ex_push_bot ex_sub_facts(2,3,4,5)
      ex_listing ex_db new ex_content_eq c ex_sends run]
  show ?thesis
    using ex_sub_facts ex_push_bot ex_listing ex_content_eq c ex_db r by simp
qed

text \<open>
  Claim C1 as stated ("regardless of the outcome of content generation") fails when
  content generation yields nothing: with the artwork detail unavailable the handler
  returns \<^verbatim>\<open>null\<close>, the iteration ends at \<^verbatim>\<open>continue\<close>, and the new id is not written
  although it differs from the (absent) row.
\<close>

theorem new_artwork_not_written_without_content:
  "enableSubscription ex_cfg \<and> push_bot ex_cfg ex_env_no_content = Some ex_bot
   \<and> ex_sub \<in> set (subscriptions ex_cfg) \<and> uid ex_sub = ''7'' \<and> channelIds ex_sub \<noteq> []
   \<and> pixiv_getUserIllusts ex_env_no_content ''7'' = Some [ex_illust]
   \<and> Map.empty ''7'' \<noteq> Some (toString (illust_id ex_illust))
   \<and> handlePixivRequest ex_cfg ex_env_no_content None (toString (illust_id ex_illust))
        Middleware True = Inr Nothing
   \<and> checkAndPushUpdates ex_cfg ex_env_no_content False Map.empty = (NoSummary, Map.empty, [])
   \<and> writes_of ''7'' (snd (snd (checkAndPushUpdates ex_cfg ex_env_no_content False Map.empty)))
        = []"
proof -
  have b: "push_bot ex_cfg ex_env_no_content = Some ex_bot"
    by (simp add: push_bot_def ex_cfg_def ex_env_def ex_env_no_content_def ex_bot_def)
  have l: "pixiv_getUserIllusts ex_env_no_content ''7'' = Some [ex_illust]"
    by (simp add: ex_env_def ex_env_no_content_def)
  have h: "handlePixivRequest ex_cfg ex_env_no_content None (toString (illust_id ex_illust))
             Middleware True = Inr Nothing"
    by (simp add: handlePixivRequest_def render_def soft_def ex_env_no_content_def)
  have n: "shouldPush False (toString (illust_id ex_illust)) None"
    by (simp add: shouldPush_def isNew_def truthy_str_def)
  have g: "database_get_ok ex_env_no_content ''7''"
    by (simp add: ex_env_def ex_env_no_content_def)
  have s: "check_sub ex_cfg ex_env_no_content ex_bot False ex_sub Map.empty = (Map.empty, [], 1)"
    using l g h n by (simp add: check_sub_def ex_sub_def)
  have r: "checkAndPushUpdates ex_cfg ex_env_no_content False Map.empty
             = (NoSummary, Map.empty, [])"
    using b s by (simp add: checkAndPushUpdates_def ex_cfg_def)
  show ?thesis
    using ex_sub_facts b l h r by (simp add: writes_of_def)
qed

text \<open>
  Claim C2. In a cycle that is not manually triggered, an author whose latest artwork id
  equals the persisted last-seen id gets no \<^verbatim>\<open>sendMessage\<close> call and no write, and the
  row is unchanged. This holds for every configuration and every world, whatever the
  other subscription entries do.
\<close>

theorem unchanged_author_is_left_alone:
  assumes latest: "pixiv_getUserIllusts en u = Some (latestIllust # older)"
    and same: "tbl u = Some (toString (illust_id latestIllust))"
    and run: "checkAndPushUpdates cfg en False tbl = (r, tbl', evs)"
  shows "sends_of u evs = [] \<and> writes_of u evs = [] \<and> tbl' u = tbl u"
proof -
  have l: "latest_id en u = Some (toString (illust_id latestIllust))"
    using latest by (simp add: latest_id_def)
  show ?thesis
  proof (cases "enableSubscription cfg \<and> push_bot cfg en \<noteq> None")
    case False
    with run show ?thesis
      by (auto simp: checkAndPushUpdates_def sends_of_def writes_of_def split: if_splits)
  next
    case True
    then obtain b where b: "push_bot cfg en = Some b" by auto
    obtain t1 e1 n1 where s: "check_subs cfg en b False (subscriptions cfg) tbl = (t1, e1, n1)"
      by (cases "check_subs cfg en b False (subscriptions cfg) tbl") auto
    with run True b have "tbl' = t1" "evs = e1"
      by (auto simp: checkAndPushUpdates_def)
    with check_subs_unchanged[OF l same s] same show ?thesis by simp
  qed
qed

text \<open>
  In the example world with artwork \<^verbatim>\<open>100\<close> already recorded, the cycle does nothing for
  the author.
\<close>

theorem unchanged_author_is_left_alone_witness:
  "pixiv_getUserIllusts ex_env ''7'' = Some [ex_illust]
   \<and> ex_seen ''7'' = Some (toString (illust_id ex_illust))
   \<and> sends_of ''7'' (snd (snd (checkAndPushUpdates ex_cfg ex_env False ex_seen))) = []
   \<and> writes_of ''7'' (snd (snd (checkAndPushUpdates ex_cfg ex_env False ex_seen))) = []
   \<and> fst (snd (checkAndPushUpdates ex_cfg ex_env False ex_seen)) ''7'' = ex_seen ''7''"
proof -
  have run: "checkAndPushUpdates ex_cfg ex_env False ex_seen =
          (fst (checkAndPushUpdates ex_cfg ex_env False ex_seen),
           fst (snd (checkAndPushUpdates ex_cfg ex_env False ex_seen)),
           snd (snd (checkAndPushUpdates ex_cfg ex_env False ex_seen)))"
    by simp
  from unchanged_author_is_left_alone[OF ex_listing ex_seen_100 run]
  show ?thesis using ex_listing ex_seen_100 by simp
qed




text \<open>
  Claim C7, as amended. Two manual runs in succession, the second starting from the table
  the first left, in the same world (no new upstream artwork, the same answers of the
  collaborators). The bot is online, the author \<open>u\<close> has a subscription entry with
  channels, a non-empty listing, a row that can be read, and content for the latest
  artwork, and no delivery of that content is rejected with \<^verbatim>\<open>undefined\<close> or \<^verbatim>\<open>null\<close>.
  Then both runs make the same \<^verbatim>\<open>sendMessage\<close> calls for \<open>u\<close>, namely the content to
  every channel of every entry of \<open>u\<close>, there is at least one such call, and the two logs
  together hold at most one write for \<open>u\<close>.
\<close>

theorem manual_trigger_twice:
  assumes on: "enableSubscription cfg" and online: "push_bot cfg en = Some b"
    and sub: "sub \<in> set (subscriptions cfg)" "uid sub = u" "u \<noteq> []" "channelIds sub \<noteq> []"
    and latest: "pixiv_getUserIllusts en u = Some (latestIllust # older)"
    and db: "database_get_ok en u"
    and content: "handlePixivRequest cfg en None (toString (illust_id latestIllust))
                    Middleware True = Inr content" "content \<noteq> Nothing"
    and sends: "\<forall>ch. sendMessage_result en b ch (message_of content) \<noteq> Some Nullish"
    and run1: "checkAndPushUpdates cfg en True tbl = (r1, tbl1, evs1)"
    and run2: "checkAndPushUpdates cfg en True tbl1 = (r2, tbl2, evs2)"
  shows "sends_of u evs1 = pushes cfg en b u content
       \<and> sends_of u evs2 = pushes cfg en b u content
       \<and> set (attempts en b u content (channelIds sub)) \<subseteq> set (pushes cfg en b u content)
       \<and> pushes cfg en b u content \<noteq> []
       \<and> length (writes_of u (evs1 @ evs2)) \<le> 1"
proof -
  obtain n1 where s1: "check_subs cfg en b True (subscriptions cfg) tbl = (tbl1, evs1, n1)"
    using run1 on online
    by (cases "check_subs cfg en b True (subscriptions cfg) tbl")
       (auto simp: checkAndPushUpdates_def)
  obtain n2 where s2: "check_subs cfg en b True (subscriptions cfg) tbl1 = (tbl2, evs2, n2)"
    using run2 on online
    by (cases "check_subs cfg en b True (subscriptions cfg) tbl1")
       (auto simp: checkAndPushUpdates_def)
  have p1: "sends_of u evs1 = pushes cfg en b u content"
    using check_subs_manual_push[OF sub(3) latest db content sends s1] by (simp add: pushes_def)
  have p2: "sends_of u evs2 = pushes cfg en b u content"
    using check_subs_manual_push[OF sub(3) latest db content sends s2] by (simp add: pushes_def)
  have sub_in: "set (attempts en b u content (channelIds sub)) \<subseteq> set (pushes cfg en b u content)"
    using sub by (auto simp: pushes_def)
  have "attempts en b u content (channelIds sub) \<noteq> []"
    using sub(4) by (simp add: attempts_def)
  with sub_in have ne: "pushes cfg en b u content \<noteq> []" by auto
  have w: "length (writes_of u (evs1 @ evs2)) \<le> 1"
  proof (cases "writes_of u evs1 = []")
    case True
    with check_subs_writes[OF s2, of u] show ?thesis
      by (auto simp: writes_of_append)
  next
    case False
    with check_subs_writes[OF s1, of u] obtain l where
      l: "latest_id en u = Some l" "writes_of u evs1 = [Upsert u l]" "tbl1 u = Some l"
      by auto
    from check_subs_recorded[OF l(1,3) s2] l(2) show ?thesis
      by (simp add: writes_of_append)
  qed
  from p1 p2 sub_in ne w show ?thesis by simp
qed

text \<open>
  In the example world, starting from the empty table: both runs push to both channels,
  and only the first run writes.
\<close>

theorem manual_trigger_twice_witness:
  "enableSubscription ex_cfg \<and> push_bot ex_cfg ex_env = Some ex_bot
   \<and> ex_sub \<in> set (subscriptions ex_cfg) \<and> uid ex_sub = ''7'' \<and> channelIds ex_sub \<noteq> []
   \<and> pixiv_getUserIllusts ex_env ''7'' = Some [ex_illust]
   \<and> database_get_ok ex_env ''7''
   \<and> handlePixivRequest ex_cfg ex_env None (toString (illust_id ex_illust)) Middleware True
       = Inr ex_content
   \<and> ex_content \<noteq> Nothing
   \<and> sends_of ''7'' (snd (snd (checkAndPushUpdates ex_cfg ex_env True Map.empty)))
       = pushes ex_cfg ex_env ex_bot ''7'' ex_content
   \<and> sends_of ''7'' (snd (snd (checkAndPushUpdates ex_cfg ex_env True
                        (fst (snd (checkAndPushUpdates ex_cfg ex_env True Map.empty))))))
       = pushes ex_cfg ex_env ex_bot ''7'' ex_content
   \<and> pushes ex_cfg ex_env ex_bot ''7'' ex_content
       = [Sent ''7'' ''c1'' (message_of ex_content) True,
          Sent ''7'' ''c2'' (message_of ex_content) False]
   \<and> length (writes_of ''7''
        (snd (snd (checkAndPushUpdates ex_cfg ex_env True Map.empty))
         @ snd (snd (checkAndPushUpdates ex_cfg ex_env True
                   (fst (snd (checkAndPushUpdates ex_cfg ex_env True Map.empty))))))) \<le> 1"
proof -
  let ?run1 = "checkAndPushUpdates ex_cfg ex_env True Map.empty"
  let ?run2 = "checkAndPushUpdates ex_cfg ex_env True (fst (snd ?run1))"
  have c: "ex_content \<noteq> Nothing" by (simp add: ex_content_def)
  have run1: "?run1 = (fst ?run1, fst (snd ?run1), snd (snd ?run1))" by simp
  have run2: "?run2 = (fst ?run2, fst (snd ?run2), snd (snd ?run2))" by simp
  have p: "pushes ex_cfg ex_env ex_bot ''7'' ex_content
       = [Sent ''7'' ''c1'' (message_of ex_content) True,
          Sent ''7'' ''c2'' (message_of ex_content) False]"
    using ex_deliveries by (simp add: pushes_def ex_cfg_def ex_sub_def)
  from manual_trigger_twice[OF ex_sub_facts(1) ex_push_bot ex_sub_facts(2,3,4,5)
      ex_listing ex_db(1) ex_content_eq c ex_sends run1 run2]
  show ?thesis
    using ex_sub_facts ex_push_bot ex_listing ex_content_eq c p ex_db(1) by simp
qed

text \<open>
  Claim C7 as stated fails when content generation yields nothing (or the bot is offline):
  with the artwork detail unavailable, a manual run counts the author as pushed but makes
  no \<^verbatim>\<open>sendMessage\<close> call, and since it leaves the table as it was, so does the next one.
\<close>

theorem manual_trigger_without_content_pushes_nothing:
  "enableSubscription ex_cfg \<and> push_bot ex_cfg ex_env_no_content = Some ex_bot
   \<and> ex_sub \<in> set (subscriptions ex_cfg) \<and> uid ex_sub = ''7''
   \<and> channelIds ex_sub = [''c1'', ''c2'']
   \<and> pixiv_getUserIllusts ex_env_no_content ''7'' = Some [ex_illust]
   \<and> checkAndPushUpdates ex_cfg ex_env_no_content True Map.empty
       = (PushedFor 1, Map.empty, [])
   \<and> sends_of ''7'' (snd (snd (checkAndPushUpdates ex_cfg ex_env_no_content True Map.empty)))
       = []
   \<and> sends_of ''7'' (snd (snd (checkAndPushUpdates ex_cfg ex_env_no_content True
          (fst (snd (checkAndPushUpdates ex_cfg ex_env_no_content True Map.empty)))))) = []"
proof -
  have b: "push_bot ex_cfg ex_env_no_content = Some ex_bot"
    by (simp add: push_bot_def ex_cfg_def ex_env_def ex_env_no_content_def ex_bot_def)
  have l: "pixiv_getUserIllusts ex_env_no_content ''7'' = Some [ex_illust]"
    by (simp add: ex_env_def ex_env_no_content_def)
  have g: "database_get_ok ex_env_no_content ''7''"
    by (simp add: ex_env_def ex_env_no_content_def)
  have h: "handlePixivRequest ex_cfg ex_env_no_content None (toString (illust_id ex_illust))
             Middleware True = Inr Nothing"
    by (simp add: handlePixivRequest_def render_def soft_def ex_env_no_content_def)
  have n: "shouldPush True (toString (illust_id ex_illust)) None"
    by (simp add: shouldPush_def isNew_def truthy_str_def)
  have s: "check_sub ex_cfg ex_env_no_content ex_bot True ex_sub Map.empty = (Map.empty, [], 1)"
    using l g h n by (simp add: check_sub_def ex_sub_def)
  have r: "checkAndPushUpdates ex_cfg ex_env_no_content True Map.empty
             = (PushedFor 1, Map.empty, [])"
    using b s by (simp add: checkAndPushUpdates_def ex_cfg_def)
  have c: "channelIds ex_sub = [''c1'', ''c2'']" by (simp add: ex_sub_def)
  show ?thesis
    using ex_sub_facts b l r c by (simp add: sends_of_def)
qed

section \<open>Credential Manager and Gallery Client: the claims\<close>

text \<open>
  Claim C3. The request reaches its first attempt (\<open>ensureToken\<close> returned true, in state
  \<open>s1\<close>) and the first attempt fails with status 400 and an
  \<^verbatim>\<open>invalid_grant\<close>/\<^verbatim>\<open>invalid_token\<close> message, leaving state \<open>s2\<close>. Then exactly one token
  exchange is posted. If it returns true, the original request is sent exactly once more,
  with the new token, and the outcome of that resend, value or error, is the outcome of
  the request; nothing is sent after it. If it returns false, nothing more is sent and
  the first error is the outcome. If it throws (its \<^verbatim>\<open>catch\<close> block reading a property of
  an \<^verbatim>\<open>undefined\<close> rejection), nothing more is sent and what it throws is the outcome.
  The hypothesis \<open>token_inv\<close> holds in every reachable state: it holds initially and the
  functions of the service preserve it.
\<close>

theorem request_refreshes_and_resends_once:
  assumes inv: "token_inv cfg s"
    and ens: "ensureToken cfg net s = (Inr True, s1)"
    and fail: "makeRequest net url params s1 = (Inl e, s2)"
    and auth: "is_auth_failure e"
  shows "\<exists>rt r s3.
           refreshToken cfg = Some rt \<and>
           refreshAccessToken cfg net s2 = (r, s3) \<and>
           calls s3 = calls s2 @ [token_call cfg rt] \<and>
           (case r of
              Inr ok \<Rightarrow>
                if ok
                then request cfg net url params s =
                       (api net (length (calls s3)) (Get url params (accessToken s3)),
                        s3\<lparr>calls := calls s2 @ [token_call cfg rt, Get url params (accessToken s3)]\<rparr>)
                else request cfg net url params s = (Inl e, s3)
            | Inl thrown \<Rightarrow> request cfg net url params s = (Inl thrown, s3))"
proof -
  from ensure_configured[OF inv ens] obtain rt where rt: "refreshToken cfg = Some rt" "rt \<noteq> []"
    by (auto simp: truthy_str_def split: option.splits)
  obtain r s3 where r: "refreshAccessToken cfg net s2 = (r, s3)"
    by (cases "refreshAccessToken cfg net s2") auto
  have c: "calls s3 = calls s2 @ [token_call cfg rt]"
    using refresh_calls[OF rt, of net s2] r by simp
  have n: "e \<noteq> Nullish" using auth by auto
  have req: "request cfg net url params s =
        (case r of Inr ok \<Rightarrow> if ok then makeRequest net url params s3 else (Inl e, s3)
                 | Inl thrown \<Rightarrow> (Inl thrown, s3))"
    using ens fail auth r n by (simp add: request_def split: sum.splits bool.splits)
  show ?thesis
    using rt r c req by (auto simp: makeRequest_def split: sum.splits)
qed

text \<open>
  In the example network the first attempt is rejected with \<^verbatim>\<open>Invalid_Grant\<close>, the
  second exchange succeeds, and the resend fails with status 500, which is what the
  caller gets after four HTTP calls.
\<close>

theorem request_refreshes_and_resends_once_witness:
  "token_inv ex_cfg initial_service
   \<and> ensureToken ex_cfg ex_net initial_service
       = (Inr True, \<lparr>accessToken = JStr ''t1'', calls = [token_call ex_cfg ''rt'']\<rparr>)
   \<and> makeRequest ex_net ''url'' []
         \<lparr>accessToken = JStr ''t1'', calls = [token_call ex_cfg ''rt'']\<rparr>
       = (Inl (HttpError (Some 400) ''Invalid_Grant''),
          \<lparr>accessToken = JStr ''t1'',
           calls = [token_call ex_cfg ''rt'', Get ''url'' [] (JStr ''t1'')]\<rparr>)
   \<and> is_auth_failure (HttpError (Some 400) ''Invalid_Grant'')
   \<and> request ex_cfg ex_net ''url'' [] initial_service
       = (Inl (HttpError (Some 500) ''down''),
          \<lparr>accessToken = JStr ''t2'',
           calls = [token_call ex_cfg ''rt'', Get ''url'' [] (JStr ''t1''),
                    token_call ex_cfg ''rt'', Get ''url'' [] (JStr ''t2'')]\<rparr>)"
proof -
  note t = request_refreshes_and_resends_once[OF token_inv_initial ex_first_exchange
      ex_first_attempt ex_auth_failure]
  have rt: "refreshToken ex_cfg = Some ''rt''" by (simp add: ex_cfg_def)
  have "request ex_cfg ex_net ''url'' [] initial_service
       = (api ex_net (Suc (Suc (Suc 0))) (Get ''url'' [] (JStr ''t2'')),
          \<lparr>accessToken = JStr ''t2'',
           calls = [token_call ex_cfg ''rt'', Get ''url'' [] (JStr ''t1''),
                    token_call ex_cfg ''rt'', Get ''url'' [] (JStr ''t2'')]\<rparr>)"
    using t by (auto simp: ex_second_exchange rt)
  moreover have "api ex_net (Suc (Suc (Suc 0))) (Get ''url'' [] (JStr ''t2'')) = Inl (HttpError (Some 500) ''down'')"
    by (simp add: ex_net_def)
  ultimately have "request ex_cfg ex_net ''url'' [] initial_service
       = (Inl (HttpError (Some 500) ''down''),
          \<lparr>accessToken = JStr ''t2'',
           calls = [token_call ex_cfg ''rt'', Get ''url'' [] (JStr ''t1''),
                    token_call ex_cfg ''rt'', Get ''url'' [] (JStr ''t2'')]\<rparr>)"
    by simp
  with token_inv_initial ex_first_exchange ex_first_attempt ex_auth_failure
  show ?thesis by simp
qed

text \<open>
  Claim C5 fails on the code for a refresh that fails without a thrown error. The service
  holds a token, the token endpoint answers with a JSON object that has no
  \<^verbatim>\<open>access_token\<close>: \<^verbatim>\<open>_refreshAccessToken\<close> returns false from inside the \<^verbatim>\<open>try\<close> block
  and the old token stays in place. Only the \<^verbatim>\<open>catch\<close> block clears the token
  (\<open>refresh_clears_on_throw\<close>).
\<close>

theorem refresh_without_token_keeps_the_old_one:
  "refreshAccessToken ex_cfg ex_net_empty ex_held
     = (Inr False, \<lparr>accessToken = JStr ''stale'', calls = [token_call ex_cfg ''rt'']\<rparr>)"
  by (simp add: refreshAccessToken_def ex_cfg_def ex_net_empty_def ex_held_def)

text \<open>
  A download rejected with \<^verbatim>\<open>undefined\<close> is not turned into \<^verbatim>\<open>null\<close>: the \<^verbatim>\<open>catch\<close> block
  of \<^verbatim>\<open>downloadImage\<close> reads \<^verbatim>\<open>error.message\<close>, which throws.
\<close>

lemma download_rejected_with_nullish_throws:
  "fst (downloadImage ex_net_nullish ''u1'' ex_held) = Inl TypeError"
  by (simp add: downloadImage_def ex_net_nullish_def)




section \<open>Output Renderer: the claims\<close>

text \<open>
  Claim C8 fails on the code for an artwork whose title is empty. The file name is
  computed from \<^verbatim>\<open>illust.title || illust.id\<close>; with an empty title that is the numeric id,
  on which \<^verbatim>\<open>replace\<close> is not a function. With one image and the PDF threshold 1 no PDF is
  produced: a command gets the unknown-error reply, a subscription push gets nothing.
\<close>

theorem untitled_artwork_gets_no_pdf:
  "pixiv_getArtworkDetail ex_env_untitled ''100'' = Some ex_untitled
   \<and> title ex_untitled = [] \<and> x_restrict ex_untitled = 0
   \<and> imageBuffers ex_env_untitled ex_untitled = [[2, 3, 8, 6]]
   \<and> pdfThreshold ex_cfg_pdf = 1
   \<and> safeTitle ex_untitled = Inl TypeError
   \<and> createPdfFile ex_cfg_pdf (sharp ex_env_untitled) ex_untitled [[2, 3, 8, 6]] = Inl TypeError
   \<and> handlePixivRequest ex_cfg_pdf ex_env_untitled (Some ex_chat) ''100'' Command False
       = Inr (Quoted (Some ''m1'') (UnknownError TypeError))
   \<and> handlePixivRequest ex_cfg_pdf ex_env_untitled None ''100'' Middleware True = Inr Nothing"
proof -
  have d: "pixiv_getArtworkDetail ex_env_untitled ''100'' = Some ex_untitled"
    by (simp add: ex_env_untitled_def)
  have i: "title ex_untitled = []" "x_restrict ex_untitled = 0"
    by (simp_all add: ex_untitled_def ex_illust_def)
  have b: "imageBuffers ex_env_untitled ex_untitled = [[2, 3, 8, 6]]"
    by (simp add: imageBuffers_def imageUrls_def ex_env_untitled_def ex_env_def
                  ex_untitled_def ex_illust_def)
  have p: "pdfThreshold ex_cfg_pdf = 1" by (simp add: ex_cfg_pdf_def)
  have t: "safeTitle ex_untitled = Inl TypeError"
    using i by (simp add: safeTitle_def)
  have c: "createPdfFile ex_cfg_pdf (sharp ex_env_untitled) ex_untitled [[2, 3, 8, 6]]
             = Inl TypeError"
    using t by (simp add: createPdfFile_def)
  have r: "render ex_cfg_pdf ex_env_untitled session ''100'' src isSubscription = Inl TypeError"
    for session src isSubscription
    using d i b t by (simp add: render_def)
  have h1: "handlePixivRequest ex_cfg_pdf ex_env_untitled (Some ex_chat) ''100'' Command False
       = Inr (Quoted (Some ''m1'') (UnknownError TypeError))"
    using r by (simp add: handlePixivRequest_def ex_chat_def)
  have h2: "handlePixivRequest ex_cfg_pdf ex_env_untitled None ''100'' Middleware True
       = Inr Nothing"
    using r by (simp add: handlePixivRequest_def)
  from d i b p t c h1 h2 show ?thesis by simp
qed

text \<open>
  Claim C10, as amended. The request reached the download step (a session exists unless
  this is a subscription push, the artwork detail is available and the R-18 policy lets
  the artwork through) with the images \<open>bufs\<close> and a non-empty title. The forward threshold is positive and at most the number
  of images, the target platform is \<^verbatim>\<open>qq\<close> or \<^verbatim>\<open>onebot\<close>, and the PDF mode is not
  triggered (the artwork is not an R-18 one under \<^verbatim>\<open>autoPdfForR18\<close>, and the PDF threshold
  is 0 or above the number of images). Then the reply is exactly one \<^verbatim>\<open>figure\<close> element
  holding the text followed by all images in download order.
\<close>

theorem forward_bundle_unless_pdf:
  assumes sess: "isSubscription \<or> session \<noteq> None"
    and detail: "pixiv_getArtworkDetail en pid = Some il"
    and gate: "\<not> (0 < x_restrict il \<and>
                  (r18Action cfg = Block \<or> (r18Action cfg = Warn \<and> \<not> isSubscription)))"
    and named: "title il \<noteq> []"
    and bufs: "imageBuffers en il = bufs"
    and nopdf: "\<not> (autoPdfForR18 cfg \<and> 0 < x_restrict il)"
               "pdfThreshold cfg = 0 \<or> length bufs < pdfThreshold cfg"
    and thr: "0 < forwardThreshold cfg" "forwardThreshold cfg \<le> length bufs"
    and capable: "forward_capable (if isSubscription then pushBotPlatform cfg
                                   else map_option platform session)"
  shows "handlePixivRequest cfg en session pid src isSubscription =
           Inr (Element (Figure (P (textInfo cfg il pid src isSubscription) # map Image bufs)))"
proof -
  obtain t where t: "safeTitle il = Inr t"
    using named by (simp add: safeTitle_def)
  have ne: "bufs \<noteq> []" using thr by auto
  have sp: "\<not> shouldCreatePdf cfg il (length bufs)"
    using nopdf by (auto simp: shouldCreatePdf_def)
  have "render cfg en session pid src isSubscription =
          Inr (Element (Figure (P (textInfo cfg il pid src isSubscription) # map Image bufs)))"
    using detail gate bufs ne t sp thr capable by (auto simp: render_def)
  with sess show ?thesis by (auto simp: handlePixivRequest_def)
qed

text \<open>
  The example artwork, requested by command on \<^verbatim>\<open>onebot\<close> with forward threshold 1 and
  the default PDF threshold 10.
\<close>

theorem forward_bundle_unless_pdf_witness:
  "pixiv_getArtworkDetail ex_env ''100'' = Some ex_illust
   \<and> imageBuffers ex_env ex_illust = [[2, 3, 8, 6]]
   \<and> forwardThreshold ex_cfg_forward = 1 \<and> pdfThreshold ex_cfg_forward = 10
   \<and> platform ex_chat = ''onebot''
   \<and> handlePixivRequest ex_cfg_forward ex_env (Some ex_chat) ''100'' Command False =
       Inr (Element (Figure (P (textInfo ex_cfg_forward ex_illust ''100'' Command False)
                             # map Image [[2, 3, 8, 6]])))"
proof -
  have sess: "False \<or> Some ex_chat \<noteq> None" by simp
  have nopdf: "\<not> (autoPdfForR18 ex_cfg_forward \<and> 0 < x_restrict ex_illust)"
              "pdfThreshold ex_cfg_forward = 0
                 \<or> length [[2::nat, 3, 8, 6]] < pdfThreshold ex_cfg_forward"
    by (simp_all add: ex_illust_def ex_cfg_forward_def ex_cfg_def)
  have thr: "0 < forwardThreshold ex_cfg_forward"
            "forwardThreshold ex_cfg_forward \<le> length [[2::nat, 3, 8, 6]]"
    by (simp_all add: ex_cfg_forward_def)
  have c: "forwardThreshold ex_cfg_forward = 1 \<and> pdfThreshold ex_cfg_forward = 10
             \<and> platform ex_chat = ''onebot''"
    by (simp add: ex_cfg_forward_def ex_cfg_def ex_chat_def)
  from forward_bundle_unless_pdf[OF sess ex_detail ex_gate ex_named ex_buffers nopdf thr
      ex_capable, of Command]
  show ?thesis
    using ex_detail ex_buffers c by simp
qed

text \<open>
  Claim C10 as stated fails when the PDF threshold is met as well: the PDF mode is
  decided first. With both thresholds 1, one image and the platform \<^verbatim>\<open>onebot\<close>, the
  reply is the text and a PDF attachment, not a forward bundle.
\<close>

theorem pdf_takes_priority_over_forward_bundle:
  "pixiv_getArtworkDetail ex_env ''100'' = Some ex_illust
   \<and> x_restrict ex_illust = 0
   \<and> imageBuffers ex_env ex_illust = [[2, 3, 8, 6]]
   \<and> forwardThreshold ex_cfg_pdf = 1 \<and> pdfThreshold ex_cfg_pdf = 1
   \<and> platform ex_chat = ''onebot''
   \<and> handlePixivRequest ex_cfg_pdf ex_env (Some ex_chat) ''100'' Command False =
       Inr (Elements
         [P [TitleLine ''t'', AuthorLine ''a'', TagsLine [''x'']],
          FileBuffer
            \<lparr>pages = [\<lparr>page_width = 2, page_height = 3, page_image = [2, 3, 4, 3]\<rparr>],
             userPassword = None\<rparr> ''t.pdf''])"
proof -
  have t: "safeTitle ex_illust = Inr ''t''"
    by (simp add: safeTitle_def ex_illust_def unsafe_char_def)
  have s: "shouldCreatePdf ex_cfg_pdf ex_illust (Suc 0)"
    by (simp add: shouldCreatePdf_def ex_cfg_pdf_def)
  have d: "createPdfFile ex_cfg_pdf ex_lib ex_illust [[2, 3, 8, 6]] =
             Inr \<lparr>pages = [\<lparr>page_width = 2, page_height = 3, page_image = [2, 3, 4, 3]\<rparr>],
                  userPassword = None\<rparr>"
    using t ex_jpeg ex_lib_facts
    by (simp add: createPdfFile_def truthy_str_def ex_cfg_pdf_def ex_cfg_def)
  have x: "textInfo ex_cfg_pdf ex_illust ''100'' Command False
             = [TitleLine ''t'', AuthorLine ''a'', TagsLine [''x'']]"
    by (simp add: textInfo_def ex_cfg_pdf_def ex_cfg_def ex_illust_def)
  have m: "pdfSendMode ex_cfg_pdf = BufferMode" "x_restrict ex_illust = 0"
    by (simp_all add: ex_cfg_pdf_def ex_cfg_def ex_illust_def)
  have "handlePixivRequest ex_cfg_pdf ex_env (Some ex_chat) ''100'' Command False =
       Inr (Elements
         [P [TitleLine ''t'', AuthorLine ''a'', TagsLine [''x'']],
          FileBuffer
            \<lparr>pages = [\<lparr>page_width = 2, page_height = 3, page_image = [2, 3, 4, 3]\<rparr>],
             userPassword = None\<rparr> ''t.pdf''])"
    by (simp add: handlePixivRequest_def render_def ex_detail ex_buffers ex_sharp t s d x m)
  moreover have "forwardThreshold ex_cfg_pdf = 1 \<and> pdfThreshold ex_cfg_pdf = 1"
    by (simp add: ex_cfg_pdf_def)
  moreover have "platform ex_chat = ''onebot''" by (simp add: ex_chat_def)
  ultimately show ?thesis
    using ex_detail ex_buffers m by simp
qed

end
